theory Spec2Isabelle
  imports Main "HOL-Library.Sublist"
begin


section \<open>Strings\<close>

text \<open>
  A JavaScript string is modelled as a \<^typ>\<open>string\<close>; a character stands for a code unit
  below 256. \<open>isWhiteSpace\<close> lists the code units of that range which
  \<^verbatim>\<open>String.prototype.trim\<close> strips (tab, line feed, vertical tab, form feed, carriage
  return, space, no-break space), and \<open>lowerChar\<close> is \<^verbatim>\<open>toLowerCase\<close> on that range
  (A to Z, and the accented capitals 192 to 222 without the multiplication sign 215).
\<close>

definition isWhiteSpace :: "char \<Rightarrow> bool" where
  "isWhiteSpace c = (of_char c \<in> {9, 10, 11, 12, 13, 32, 160 :: nat})"

definition trim :: "string \<Rightarrow> string" where
  "trim s = rev (dropWhile isWhiteSpace (rev (dropWhile isWhiteSpace s)))"

definition lowerChar :: "char \<Rightarrow> char" where
  "lowerChar c =
     (let n = (of_char c :: nat)
      in if (65 \<le> n \<and> n \<le> 90) \<or> (192 \<le> n \<and> n \<le> 222 \<and> n \<noteq> 215)
         then char_of (n + 32) else c)"

definition toLowerCase :: "string \<Rightarrow> string" where
  "toLowerCase s = map lowerChar s"

text \<open>
  \<^verbatim>\<open>s.split(sep)\<close> for a separator of one character: the pieces between the separators,
  empty pieces included, and one piece (the whole string) when the separator does not
  occur. The result is never empty; the \<open>[]\<close> branch of the case is there for totality.
\<close>

fun js_split :: "char \<Rightarrow> string \<Rightarrow> string list" where
  "js_split sep [] = [[]]"
| "js_split sep (c # cs) =
     (if c = sep then [] # js_split sep cs
      else (case js_split sep cs of
              [] \<Rightarrow> [[c]]
            | w # ws \<Rightarrow> (c # w) # ws))"

text \<open>\<^verbatim>\<open>parts.join(sep)\<close>.\<close>

fun js_join :: "string \<Rightarrow> string list \<Rightarrow> string" where
  "js_join sep [] = []"
| "js_join sep [x] = x"
| "js_join sep (x # y # ys) = x @ sep @ js_join sep (y # ys)"

text \<open>\<^verbatim>\<open>text.includes(word)\<close>: \<open>word\<close> occurs in \<open>text\<close> as a contiguous run.\<close>

fun js_includes :: "string \<Rightarrow> string \<Rightarrow> bool" where
  "js_includes [] w = (w = [])"
| "js_includes (c # cs) w = (prefix w (c # cs) \<or> js_includes cs w)"

text \<open>
  \<^verbatim>\<open>xs.filter((x, i) => p(x, i))\<close>: the callback sees the element and its index in the
  original array.
\<close>

fun filter_from :: "nat \<Rightarrow> ('a \<Rightarrow> nat \<Rightarrow> bool) \<Rightarrow> 'a list \<Rightarrow> 'a list" where
  "filter_from i p [] = []"
| "filter_from i p (x # xs) =
     (if p x i then x # filter_from (Suc i) p xs else filter_from (Suc i) p xs)"

definition js_filter :: "('a \<Rightarrow> nat \<Rightarrow> bool) \<Rightarrow> 'a list \<Rightarrow> 'a list" where
  "js_filter p xs = filter_from 0 p xs"

section \<open>Flashcards and the response parser\<close>

text \<open>
  \<^verbatim>\<open>interface Flashcard { term: string; definition: string }\<close>. The two field names are
  Isabelle keywords, hence the prefix.
\<close>

record flashcard =
  card_term :: string
  card_definition :: string

text \<open>
  The callback of \<^verbatim>\<open>.map\<close> in the click listener of \<^verbatim>\<open>generateButton\<close>: one line of
  the response becomes a card or \<^verbatim>\<open>null\<close>.
\<close>

definition parseLine :: "string \<Rightarrow> flashcard option" where
  "parseLine line =
     (let parts = js_split CHR '':'' line
      in if length parts \<ge> 2 \<and> trim (parts ! 0) \<noteq> []
         then (let trm = trim (parts ! 0);
                   dfn = trim (js_join '':'' (drop 1 parts))
               in if dfn \<noteq> []
                  then Some \<lparr>card_term = trm, card_definition = dfn\<rparr>
                  else None)
         else None)"

text \<open>
  \<^verbatim>\<open>responseText.split('\n').map(...).filter(card => card !== null)\<close>.
\<close>

definition parseResponse :: "string \<Rightarrow> flashcard list" where
  "parseResponse responseText =
     map the (filter (\<lambda>parsed. parsed \<noteq> None) (map parseLine (js_split CHR 0x0A responseText)))"

section \<open>The search filter\<close>

text \<open>
  \<^verbatim>\<open>searchBar.value.trim().toLowerCase().split(' ').filter(word => word.length > 0)\<close>.
\<close>

definition searchWords :: "string \<Rightarrow> string list" where
  "searchWords v = filter (\<lambda>word. length word > 0) (js_split CHR '' '' (toLowerCase (trim v)))"

text \<open>The body of the loop of \<^verbatim>\<open>applySearchFilter\<close> for one card.\<close>

definition isVisible :: "string list \<Rightarrow> flashcard \<Rightarrow> bool" where
  "isVisible words flashcard =
     (if length words > 0
      then (let cardText = toLowerCase (card_term flashcard @ '' '' @ card_definition flashcard)
            in list_all (\<lambda>word. js_includes cardText word) words)
      else True)"

section \<open>The page and the module state\<close>

text \<open>
  One rendered card (\<^verbatim>\<open>cardDiv\<close>): its \<^verbatim>\<open>data-index\<close>, the text of its term and
  definition elements, and the classes \<^verbatim>\<open>is-editing\<close>, \<^verbatim>\<open>hidden\<close> and \<^verbatim>\<open>dragging\<close>.
  The flip state, the selection highlight and the labels are presentation only and are
  left out.
\<close>

record card_div =
  data_index :: nat
  term_text :: string
  definition_text :: string
  is_editing :: bool
  hidden :: bool
  dragging :: bool

text \<open>
  The module-level variables, the children of \<^verbatim>\<open>flashcardsContainer\<close> in document
  order, the value of the search bar, the text of the message element, and the list of
  values handed to \<^verbatim>\<open>saveFlashcards\<close> so far (oldest first): every persistence write
  is one entry. Whether the browser's store accepts a write is outside the program
  (\<^verbatim>\<open>saveFlashcards\<close> catches and logs a failure). Each handler below is a function
  on this state. Cancelling an edit, flipping a card, the theme switch and the display
  at startup are not modelled.
\<close>

record app_state =
  currentFlashcards :: "flashcard list"
  previousState :: "flashcard list option"
  isMultiSelectMode :: bool
  selectedCards :: "nat set"
  flashcardsContainer :: "card_div list"
  searchBar :: string
  errorMessage :: string
  storageWrites :: "flashcard list list"

definition initialState :: app_state where
  "initialState =
     \<lparr>currentFlashcards = [], previousState = None, isMultiSelectMode = False,
      selectedCards = {}, flashcardsContainer = [], searchBar = [], errorMessage = [],
      storageWrites = []\<rparr>"

datatype error = TypeError | SyntaxError

definition savePreviousState :: "app_state \<Rightarrow> app_state" where
  "savePreviousState s = s\<lparr>previousState := Some (currentFlashcards s)\<rparr>"

definition saveFlashcards :: "flashcard list \<Rightarrow> app_state \<Rightarrow> app_state" where
  "saveFlashcards flashcards s = s\<lparr>storageWrites := storageWrites s @ [flashcards]\<rparr>"

text \<open>The \<^verbatim>\<open>forEach\<close> of \<^verbatim>\<open>displayFlashcards\<close>: one fresh element per card.\<close>

fun renderCards :: "nat \<Rightarrow> flashcard list \<Rightarrow> card_div list" where
  "renderCards index [] = []"
| "renderCards index (flashcard # rest) =
     \<lparr>data_index = index, term_text = card_term flashcard,
      definition_text = card_definition flashcard,
      is_editing = False, hidden = False, dragging = False\<rparr> # renderCards (Suc index) rest"

definition displayFlashcards :: "flashcard list \<Rightarrow> app_state \<Rightarrow> app_state" where
  "displayFlashcards flashcards s =
     s\<lparr>currentFlashcards := flashcards,
       flashcardsContainer := renderCards 0 flashcards,
       searchBar := (if length flashcards > 0 then searchBar s else [])\<rparr>"

text \<open>
  The loop of \<^verbatim>\<open>applySearchFilter\<close>: the card at position \<open>k\<close> decides the class
  \<^verbatim>\<open>hidden\<close> of the element at position \<open>k\<close>; a card with no element is skipped.
\<close>

fun applyHidden :: "string list \<Rightarrow> flashcard list \<Rightarrow> card_div list \<Rightarrow> card_div list" where
  "applyHidden words (flashcard # rest) (element # elements) =
     element\<lparr>hidden := \<not> isVisible words flashcard\<rparr> # applyHidden words rest elements"
| "applyHidden words [] elements = elements"
| "applyHidden words flashcards [] = []"

definition applySearchFilter :: "app_state \<Rightarrow> app_state" where
  "applySearchFilter s =
     s\<lparr>flashcardsContainer :=
         applyHidden (searchWords (searchBar s)) (currentFlashcards s) (flashcardsContainer s)\<rparr>"

definition searchBar_input :: "string \<Rightarrow> app_state \<Rightarrow> app_state" where
  "searchBar_input v s = applySearchFilter (s\<lparr>searchBar := v\<rparr>)"

text \<open>
  \<^verbatim>\<open>toggleCardSelection(index)\<close>: the element is looked up by position and the function
  returns early when there is none.
\<close>

definition toggleCardSelection :: "nat \<Rightarrow> app_state \<Rightarrow> app_state" where
  "toggleCardSelection index s =
     (if index \<ge> length (flashcardsContainer s) then s
      else if index \<in> selectedCards s
           then s\<lparr>selectedCards := selectedCards s - {index}\<rparr>
           else s\<lparr>selectedCards := insert index (selectedCards s)\<rparr>)"

text \<open>The click listener of a card: select in multi-select mode, flip otherwise.\<close>

definition cardDiv_click :: "nat \<Rightarrow> app_state \<Rightarrow> app_state" where
  "cardDiv_click index s = (if isMultiSelectMode s then toggleCardSelection index s else s)"

text \<open>
  The listeners created for the card of index \<open>index\<close> act on that card's own element,
  found here by its \<^verbatim>\<open>data-index\<close>.
\<close>

definition cardElement :: "nat \<Rightarrow> app_state \<Rightarrow> card_div option" where
  "cardElement index s = find (\<lambda>e. data_index e = index) (flashcardsContainer s)"

definition updateElement :: "nat \<Rightarrow> (card_div \<Rightarrow> card_div) \<Rightarrow> app_state \<Rightarrow> app_state" where
  "updateElement index f s =
     s\<lparr>flashcardsContainer :=
         map (\<lambda>e. if data_index e = index then f e else e) (flashcardsContainer s)\<rparr>"

definition exitEditMode :: "nat \<Rightarrow> app_state \<Rightarrow> app_state" where
  "exitEditMode index s = updateElement index (\<lambda>e. e\<lparr>is_editing := False\<rparr>) s"

text \<open>
  \<^verbatim>\<open>saveAndEndEditing\<close>. Reading \<^verbatim>\<open>currentFlashcards[index].term\<close> with no card at
  \<open>index\<close> throws a TypeError.
\<close>

definition saveAndEndEditing :: "nat \<Rightarrow> app_state \<Rightarrow> error + app_state" where
  "saveAndEndEditing index s =
     (case cardElement index s of
        None \<Rightarrow> Inr s
      | Some cardDiv \<Rightarrow>
          if \<not> is_editing cardDiv then Inr s
          else (let newTerm = trim (term_text cardDiv);
                    newDef = trim (definition_text cardDiv)
                in if index \<ge> length (currentFlashcards s) then Inl TypeError
                   else if card_term (currentFlashcards s ! index) \<noteq> newTerm \<or>
                           card_definition (currentFlashcards s ! index) \<noteq> newDef
                   then (let s1 = savePreviousState s;
                             s2 = s1\<lparr>currentFlashcards :=
                                       (currentFlashcards s1)
                                         [index := \<lparr>card_term = newTerm, card_definition = newDef\<rparr>]\<rparr>;
                             s3 = saveFlashcards (currentFlashcards s2) s2
                         in Inr (exitEditMode index s3))
                   else Inr (exitEditMode index s)))"

text \<open>The click listener of the edit button: save when editing, else enter edit mode.\<close>

definition editButton_click :: "nat \<Rightarrow> app_state \<Rightarrow> error + app_state" where
  "editButton_click index s =
     (case cardElement index s of
        None \<Rightarrow> Inr s
      | Some cardDiv \<Rightarrow>
          if is_editing cardDiv then saveAndEndEditing index s
          else Inr (updateElement index (\<lambda>e. e\<lparr>is_editing := True\<rparr>) s))"

text \<open>
  Typing into the term and definition elements, which the browser allows while the card
  is in edit mode (\<^verbatim>\<open>contentEditable\<close>).
\<close>

definition typeText :: "nat \<Rightarrow> string \<Rightarrow> string \<Rightarrow> app_state \<Rightarrow> app_state" where
  "typeText index t d s =
     updateElement index
       (\<lambda>e. if is_editing e then e\<lparr>term_text := t, definition_text := d\<rparr> else e) s"

text \<open>
  The click listener of a card's delete button; \<open>confirmed\<close> is the answer of the
  confirmation dialog.
\<close>

definition deleteButton_click :: "nat \<Rightarrow> bool \<Rightarrow> app_state \<Rightarrow> app_state" where
  "deleteButton_click index confirmed s =
     (if confirmed
      then (let s1 = savePreviousState s;
                updatedFlashcards = js_filter (\<lambda>_ i. i \<noteq> index) (currentFlashcards s1)
            in displayFlashcards updatedFlashcards (saveFlashcards updatedFlashcards s1))
      else s)"

text \<open>
  \<^verbatim>\<open>updateOrderAndSave\<close>. An element whose \<^verbatim>\<open>data-index\<close> is not an index of
  \<^verbatim>\<open>currentFlashcards\<close> puts \<^verbatim>\<open>undefined\<close> into the new array, and rendering it throws a
  TypeError (\<^verbatim>\<open>flashcard.term\<close>).
\<close>

definition updateOrderAndSave :: "app_state \<Rightarrow> error + app_state" where
  "updateOrderAndSave s =
     (let s1 = savePreviousState s;
          orderedCards = flashcardsContainer s1
      in if list_ex (\<lambda>element. data_index element \<ge> length (currentFlashcards s1)) orderedCards
         then Inl TypeError
         else (let newFlashcards = map (\<lambda>element. currentFlashcards s1 ! data_index element) orderedCards;
                   s2 = displayFlashcards newFlashcards s1;
                   s3 = applySearchFilter s2
               in Inr (saveFlashcards newFlashcards s3)))"

text \<open>
  The drag listeners. \<^verbatim>\<open>dragstart\<close> marks the card as dragging; the browser starts a
  drag only on a card rendered with \<^verbatim>\<open>draggable\<close>, that is outside multi-select mode.
  \<^verbatim>\<open>dragover\<close> moves the dragging card before \<open>afterElement\<close>, or to the end when there
  is none; \<open>afterElement\<close> is the \<^verbatim>\<open>data-index\<close> of the card \<^verbatim>\<open>getDragAfterElement\<close>
  returns, which depends on the geometry of the page and is an input here.
  \<^verbatim>\<open>dragend\<close> commits the order.
\<close>

definition cardDiv_dragstart :: "nat \<Rightarrow> app_state \<Rightarrow> app_state" where
  "cardDiv_dragstart index s =
     (if isMultiSelectMode s then s
      else updateElement index (\<lambda>e. e\<lparr>dragging := True\<rparr>) s)"

definition flashcardsContainer_dragover :: "nat option \<Rightarrow> app_state \<Rightarrow> app_state" where
  "flashcardsContainer_dragover afterElement s =
     (case find dragging (flashcardsContainer s) of
        None \<Rightarrow> s
      | Some d \<Rightarrow>
          (let others = filter (\<lambda>e. data_index e \<noteq> data_index d) (flashcardsContainer s)
           in case afterElement of
                None \<Rightarrow> s\<lparr>flashcardsContainer := others @ [d]\<rparr>
              | Some a \<Rightarrow>
                  s\<lparr>flashcardsContainer :=
                      takeWhile (\<lambda>e. data_index e \<noteq> a) others @ [d] @
                      dropWhile (\<lambda>e. data_index e \<noteq> a) others\<rparr>))"

definition cardDiv_dragend :: "nat \<Rightarrow> app_state \<Rightarrow> error + app_state" where
  "cardDiv_dragend index s =
     updateOrderAndSave (updateElement index (\<lambda>e. e\<lparr>dragging := False\<rparr>) s)"

text \<open>
  The click listener of the undo button. The message it shows is cleared by a timer
  three seconds later, which is not modelled.
\<close>

definition undoButton_click :: "app_state \<Rightarrow> app_state" where
  "undoButton_click s =
     (case previousState s of
        None \<Rightarrow> s
      | Some prev \<Rightarrow>
          (let s1 = displayFlashcards prev s;
               s2 = saveFlashcards prev s1;
               s3 = applySearchFilter s2
           in s3\<lparr>previousState := None, errorMessage := ''Last action undone.''\<rparr>))"

definition selectButton_click :: "app_state \<Rightarrow> app_state" where
  "selectButton_click s =
     (let s1 = s\<lparr>isMultiSelectMode := \<not> isMultiSelectMode s\<rparr>;
          s2 = (if isMultiSelectMode s1 then s1 else s1\<lparr>selectedCards := {}\<rparr>)
      in displayFlashcards (currentFlashcards s2) s2)"

definition deleteSelectedButton_click :: "bool \<Rightarrow> app_state \<Rightarrow> app_state" where
  "deleteSelectedButton_click confirmed s =
     (if selectedCards s = {} then s
      else if confirmed
      then (let s1 = savePreviousState s;
                updatedFlashcards =
                  js_filter (\<lambda>_ i. i \<notin> selectedCards s1) (currentFlashcards s1);
                s2 = s1\<lparr>isMultiSelectMode := False, selectedCards := {}\<rparr>
            in displayFlashcards updatedFlashcards (saveFlashcards updatedFlashcards s2))
      else s)"

text \<open>
  The click listener of the generate button, in two parts: up to the request, and from
  the answer on. The answer is the response text, or the message of the error thrown.
\<close>

definition generateButton_click :: "string \<Rightarrow> app_state \<Rightarrow> app_state" where
  "generateButton_click topicInput s =
     (if trim topicInput = []
      then s\<lparr>errorMessage := ''Please enter a topic or some terms and definitions.'',
             flashcardsContainer := []\<rparr>
      else s\<lparr>errorMessage := ''Generating flashcards...'',
             flashcardsContainer := [],
             previousState := None\<rparr>)"

definition generateContent_settled :: "string + string \<Rightarrow> app_state \<Rightarrow> app_state" where
  "generateContent_settled answer s =
     (case answer of
        Inl message \<Rightarrow>
          s\<lparr>errorMessage :=
               ''An error occurred: '' @
               (if message = [] then ''An unknown error occurred'' else message),
             flashcardsContainer := []\<rparr>
      | Inr responseText \<Rightarrow>
          if responseText \<noteq> []
          then (let flashcards = parseResponse responseText
                in if length flashcards > 0
                   then saveFlashcards flashcards
                          (displayFlashcards flashcards (s\<lparr>errorMessage := []\<rparr>))
                   else s\<lparr>errorMessage :=
                     ''No valid flashcards could be generated from the response. Please check the format.''\<rparr>)
          else s\<lparr>errorMessage :=
                 ''Failed to generate flashcards or received an empty response. Please try again.''\<rparr>)"

section \<open>Loading the stored cards\<close>

text \<open>
  \<^verbatim>\<open>JSON.parse\<close> is a built-in of the language, modelled here as a recursive-descent
  parser of the JSON grammar: white space, the three literals, numbers, strings, arrays
  and objects. A number and a string are kept as written (escape sequences are checked,
  not decoded), and an object keeps its members in source order. The functions that call
  each other carry a fuel argument that decreases with every call. \<open>JSON_parse\<close> starts
  with twice the length of the text plus two, which is enough: every second call
  consumes a character, and more fuel gives the same result (\<open>JSON_parse_fuel\<close> below).
  A text that is not JSON makes the built-in throw a SyntaxError.
\<close>

datatype json =
    JNull
  | JBool bool
  | JNumber string
  | JString string
  | JArray "json list"
  | JObject "(string \<times> json) list"

definition isJsonSpace :: "char \<Rightarrow> bool" where
  "isJsonSpace c = (of_char c \<in> {9, 10, 13, 32 :: nat})"

definition skipSpace :: "string \<Rightarrow> string" where
  "skipSpace cs = dropWhile isJsonSpace cs"

definition isDigit :: "char \<Rightarrow> bool" where
  "isDigit c = (48 \<le> (of_char c :: nat) \<and> (of_char c :: nat) \<le> 57)"

definition isHexDigit :: "char \<Rightarrow> bool" where
  "isHexDigit c =
     (let n = (of_char c :: nat)
      in (48 \<le> n \<and> n \<le> 57) \<or> (65 \<le> n \<and> n \<le> 70) \<or> (97 \<le> n \<and> n \<le> 102))"

fun scanString :: "nat \<Rightarrow> string \<Rightarrow> string \<Rightarrow> (string \<times> string) option" where
  "scanString 0 acc cs = None"
| "scanString (Suc fuel) acc [] = None"
| "scanString (Suc fuel) acc (c # cs) =
     (if c = CHR 0x22 then Some (rev acc, cs)
      else if c = CHR 0x5C
      then (case cs of
              [] \<Rightarrow> None
            | e # rest \<Rightarrow>
                if e \<in> set [CHR 0x22, CHR 0x5C, CHR ''/'', CHR ''b'', CHR ''f'', CHR ''n'',
                             CHR ''r'', CHR ''t'']
                then scanString fuel (e # c # acc) rest
                else if e = CHR ''u'' \<and> length rest \<ge> 4 \<and> list_all isHexDigit (take 4 rest)
                then scanString fuel (rev (take 4 rest) @ e # c # acc) (drop 4 rest)
                else None)
      else if (of_char c :: nat) < 32 then None
      else scanString fuel (c # acc) cs)"

definition scanDigits :: "string \<Rightarrow> (string \<times> string) option" where
  "scanDigits cs =
     (let ds = takeWhile isDigit cs
      in if ds = [] then None else Some (ds, dropWhile isDigit cs))"

definition scanNumber :: "string \<Rightarrow> (string \<times> string) option" where
  "scanNumber cs =
     (let (sign, r0) = (if cs \<noteq> [] \<and> hd cs = CHR ''-'' then (''-'', tl cs) else ([], cs))
      in case (if r0 \<noteq> [] \<and> hd r0 = CHR ''0'' then Some (''0'', tl r0) else scanDigits r0) of
           None \<Rightarrow> None
         | Some (ipart, r1) \<Rightarrow>
             (case (if r1 \<noteq> [] \<and> hd r1 = CHR ''.''
                    then map_option (\<lambda>(ds, r). (CHR ''.'' # ds, r)) (scanDigits (tl r1))
                    else Some ([], r1)) of
                None \<Rightarrow> None
              | Some (fpart, r2) \<Rightarrow>
                  (case (if r2 \<noteq> [] \<and> (hd r2 = CHR ''e'' \<or> hd r2 = CHR ''E'')
                         then (let r3 = tl r2;
                                   (esign, r4) =
                                     (if r3 \<noteq> [] \<and> (hd r3 = CHR ''+'' \<or> hd r3 = CHR ''-'')
                                      then ([hd r3], tl r3) else ([], r3))
                               in map_option (\<lambda>(ds, r). (hd r2 # esign @ ds, r)) (scanDigits r4))
                         else Some ([], r2)) of
                     None \<Rightarrow> None
                   | Some (epart, r5) \<Rightarrow> Some (sign @ ipart @ fpart @ epart, r5))))"

fun parseValue :: "nat \<Rightarrow> string \<Rightarrow> (json \<times> string) option"
  and parseElements :: "nat \<Rightarrow> json list \<Rightarrow> string \<Rightarrow> (json \<times> string) option"
  and parseMembers :: "nat \<Rightarrow> (string \<times> json) list \<Rightarrow> string \<Rightarrow> (json \<times> string) option"
where
  "parseValue 0 cs = None"
| "parseValue (Suc fuel) cs =
     (case skipSpace cs of
        [] \<Rightarrow> None
      | c # r \<Rightarrow>
          if c = CHR ''{''
          then (case skipSpace r of
                  [] \<Rightarrow> None
                | c' # r' \<Rightarrow> if c' = CHR ''}'' then Some (JObject [], r')
                             else parseMembers fuel [] r)
          else if c = CHR ''[''
          then (case skipSpace r of
                  [] \<Rightarrow> None
                | c' # r' \<Rightarrow> if c' = CHR '']'' then Some (JArray [], r')
                             else parseElements fuel [] r)
          else if c = CHR 0x22
          then map_option (\<lambda>(str, r'). (JString str, r')) (scanString (length r) [] r)
          else if take 4 (c # r) = ''null'' then Some (JNull, drop 4 (c # r))
          else if take 4 (c # r) = ''true'' then Some (JBool True, drop 4 (c # r))
          else if take 5 (c # r) = ''false'' then Some (JBool False, drop 5 (c # r))
          else map_option (\<lambda>(num, r'). (JNumber num, r')) (scanNumber (c # r)))"
| "parseElements 0 acc cs = None"
| "parseElements (Suc fuel) acc cs =
     (case parseValue fuel cs of
        None \<Rightarrow> None
      | Some (v, r) \<Rightarrow>
          (case skipSpace r of
             [] \<Rightarrow> None
           | c # r' \<Rightarrow>
               if c = CHR '','' then parseElements fuel (v # acc) r'
               else if c = CHR '']'' then Some (JArray (rev (v # acc)), r')
               else None))"
| "parseMembers 0 acc cs = None"
| "parseMembers (Suc fuel) acc cs =
     (case skipSpace cs of
        [] \<Rightarrow> None
      | q # r \<Rightarrow>
          if q \<noteq> CHR 0x22 then None
          else (case scanString (length r) [] r of
                  None \<Rightarrow> None
                | Some (key, r1) \<Rightarrow>
                    (case skipSpace r1 of
                       [] \<Rightarrow> None
                     | colon # r2 \<Rightarrow>
                         if colon \<noteq> CHR '':'' then None
                         else (case parseValue fuel r2 of
                                 None \<Rightarrow> None
                               | Some (v, r3) \<Rightarrow>
                                   (case skipSpace r3 of
                                      [] \<Rightarrow> None
                                    | c # r4 \<Rightarrow>
                                        if c = CHR '','' then parseMembers fuel ((key, v) # acc) r4
                                        else if c = CHR ''}''
                                        then Some (JObject (rev ((key, v) # acc)), r4)
                                        else None)))))"

definition JSON_parse :: "string \<Rightarrow> error + json" where
  "JSON_parse text =
     (case parseValue (2 * length text + 2) text of
        None \<Rightarrow> Inl SyntaxError
      | Some (v, r) \<Rightarrow> if skipSpace r = [] then Inr v else Inl SyntaxError)"

text \<open>
  \<^verbatim>\<open>loadFlashcards\<close>, on the entry stored under the flashcards key (\<open>None\<close> when there
  is none). The result is the value returned (\<open>JNull\<close> for \<^verbatim>\<open>null\<close>) and the entry
  afterwards. The \<^verbatim>\<open>try\<close> block returns the parsed value, falls through (\<open>Inr None\<close>)
  or throws; the \<^verbatim>\<open>catch\<close> block removes the entry.
\<close>

definition loadFlashcards :: "string option \<Rightarrow> json \<times> string option" where
  "loadFlashcards stored =
     (let tryBlock =
            (case stored of
               None \<Rightarrow> Inr None
             | Some saved \<Rightarrow>
                 if saved \<noteq> []
                 then (case JSON_parse saved of Inl e \<Rightarrow> Inl e | Inr v \<Rightarrow> Inr (Some v))
                 else Inr None)
      in case tryBlock of
           Inr (Some v) \<Rightarrow> (v, stored)
         | Inr None \<Rightarrow> (JNull, stored)
         | Inl e \<Rightarrow> (JNull, None))"

section \<open>Notions of the specification, invariants and example states\<close>

text \<open>
  A valid card of the data model: term and definition are non-empty and trimmed.
\<close>

definition validCard :: "flashcard \<Rightarrow> bool" where
  "validCard c \<longleftrightarrow>
     card_term c \<noteq> [] \<and> trim (card_term c) = card_term c \<and>
     card_definition c \<noteq> [] \<and> trim (card_definition c) = card_definition c"

text \<open>
  The serialisation of the round-trip property: one line \<^verbatim>\<open>term: definition\<close> per card,
  the lines joined with line feeds.
\<close>

definition serializeCards :: "flashcard list \<Rightarrow> string" where
  "serializeCards cards =
     js_join [CHR 0x0A] (map (\<lambda>c. card_term c @ '': '' @ card_definition c) cards)"

text \<open>
  The parser's rule for one line in the words of the specification: split at the first
  colon into head and rest; the line yields a card iff there is a colon and both parts
  are non-empty once trimmed.
\<close>

definition spec_line_card :: "string \<Rightarrow> flashcard option" where
  "spec_line_card line =
     (if CHR '':'' \<in> set line
      then (let head = takeWhile (\<lambda>c. c \<noteq> CHR '':'') line;
                rest = tl (dropWhile (\<lambda>c. c \<noteq> CHR '':'') line)
            in if trim head \<noteq> [] \<and> trim rest \<noteq> []
               then Some \<lparr>card_term = trim head, card_definition = trim rest\<rparr>
               else None)
      else None)"

text \<open>
  The stored schema: a JSON array of records with a string under \<^verbatim>\<open>term\<close> and a string
  under \<^verbatim>\<open>definition\<close>.
\<close>

fun isStringValue :: "json \<Rightarrow> bool" where
  "isStringValue (JString str) = True"
| "isStringValue v = False"

definition isFlashcardRecord :: "json \<Rightarrow> bool" where
  "isFlashcardRecord v =
     (case v of
        JObject members \<Rightarrow>
          (case (map_of members ''term'', map_of members ''definition'') of
             (Some t, Some d) \<Rightarrow> isStringValue t \<and> isStringValue d
           | _ \<Rightarrow> False)
      | _ \<Rightarrow> False)"

definition isFlashcardArray :: "json \<Rightarrow> bool" where
  "isFlashcardArray v = (case v of JArray vs \<Rightarrow> list_all isFlashcardRecord vs | _ \<Rightarrow> False)"

definition wellFormedStored :: "string \<Rightarrow> bool" where
  "wellFormedStored saved =
     (case JSON_parse saved of Inl e \<Rightarrow> False | Inr v \<Rightarrow> isFlashcardArray v)"

text \<open>
  The cards on the page and the card list: every card on the page carries an index of
  the card list. Rendering establishes this and every handler keeps it, so the reorder
  never reads beyond the list.
\<close>

definition pageInvariant :: "app_state \<Rightarrow> bool" where
  "pageInvariant s \<longleftrightarrow>
     list_all (\<lambda>e. data_index e < length (currentFlashcards s)) (flashcardsContainer s)"

text \<open>
  The destructive operations: committing an edit, a confirmed single delete, a confirmed
  batch delete, and the end of a drag. \<open>destructive op s\<close> says that the operation passes
  the guards of its handler in state \<open>s\<close>, so that it changes the card list rather than
  returning early.
\<close>

datatype destructive_op = EditCard nat | DeleteCard nat | DeleteSelected | Reorder nat

fun perform :: "destructive_op \<Rightarrow> app_state \<Rightarrow> error + app_state" where
  "perform (EditCard index) s = saveAndEndEditing index s"
| "perform (DeleteCard index) s = Inr (deleteButton_click index True s)"
| "perform DeleteSelected s = Inr (deleteSelectedButton_click True s)"
| "perform (Reorder index) s = cardDiv_dragend index s"

fun destructive :: "destructive_op \<Rightarrow> app_state \<Rightarrow> bool" where
  "destructive (EditCard index) s =
     (case cardElement index s of
        None \<Rightarrow> False
      | Some e \<Rightarrow>
          is_editing e \<and> index < length (currentFlashcards s) \<and>
          (card_term (currentFlashcards s ! index) \<noteq> trim (term_text e) \<or>
           card_definition (currentFlashcards s ! index) \<noteq> trim (definition_text e)))"
| "destructive (DeleteCard index) s = True"
| "destructive DeleteSelected s = (selectedCards s \<noteq> {})"
| "destructive (Reorder index) s = pageInvariant s"

text \<open>
  The selection outside multi-select mode. Cards are selected only in multi-select mode,
  and leaving the mode (by the select button or by a batch delete) clears the selection;
  no other handler changes the mode. So the selection is empty whenever the mode is off,
  in particular whenever a drag can start.
\<close>

definition selectionInvariant :: "app_state \<Rightarrow> bool" where
  "selectionInvariant s \<longleftrightarrow> isMultiSelectMode s \<or> selectedCards s = {}"

text \<open>
  A state to run the handlers on: three cards, generated from a response of three lines.
\<close>

definition demoState :: app_state where
  "demoState =
     generateContent_settled (Inr (''A: 1'' @ [CHR 0x0A] @ ''B: 2'' @ [CHR 0x0A] @ ''C: 3''))
       (generateButton_click ''letters'' initialState)"

text \<open>
  States reached from it: card A dragged to the end and not yet dropped, and the same
  after the drop; card B in edit mode with white space typed around its texts; card A
  deleted; and four cards with cards 1 and 3 selected.
\<close>

definition demoDragged :: app_state where
  "demoDragged = flashcardsContainer_dragover None (cardDiv_dragstart 0 demoState)"

definition demoReordered :: app_state where
  "demoReordered = (case cardDiv_dragend 0 demoDragged of Inr s \<Rightarrow> s | Inl e \<Rightarrow> demoDragged)"

definition demoEditing :: app_state where
  "demoEditing =
     (case editButton_click 1 demoState of
        Inr s \<Rightarrow> typeText 1 ''  B '' ''2  '' s
      | Inl e \<Rightarrow> demoState)"

definition demoDeleted :: app_state where
  "demoDeleted = deleteButton_click 0 True demoState"

definition demoSelected :: app_state where
  "demoSelected =
     cardDiv_click 3 (cardDiv_click 1 (selectButton_click
       (generateContent_settled
          (Inr (''A: 1'' @ [CHR 0x0A] @ ''B: 2'' @ [CHR 0x0A] @ ''C: 3'' @ [CHR 0x0A] @ ''D: 4''))
          (generateButton_click ''letters'' initialState))))"

section \<open>Properties of the string functions\<close>

lemma js_split_not_Nil: "js_split sep s \<noteq> []"
  by (induction s) (auto split: list.splits)

lemma js_split_no_sep: "sep \<notin> set h \<Longrightarrow> js_split sep h = [h]"
  by (induction h) auto

lemma js_split_append_sep:
  "sep \<notin> set h \<Longrightarrow> js_split sep (h @ sep # r) = h # js_split sep r"
  by (induction h) auto

lemma js_split_pieces: "w \<in> set (js_split sep s) \<Longrightarrow> sep \<notin> set w"
  by (induction s arbitrary: w) (auto split: list.splits if_splits)

lemma js_join_split: "js_join [sep] (js_split sep s) = s"
proof (induction s)
  case Nil
  show ?case by simp
next
  case (Cons c cs)
  obtain w ws where sp: "js_split sep cs = w # ws"
    using js_split_not_Nil [of sep cs] by (cases "js_split sep cs") auto
  show ?case
  proof (cases "c = sep")
    case True
    with Cons sp show ?thesis by simp
  next
    case False
    with Cons sp show ?thesis by (cases ws) auto
  qed
qed

lemma js_split_first:
  assumes "sep \<in> set s"
  shows "js_split sep s =
     takeWhile (\<lambda>c. c \<noteq> sep) s # js_split sep (tl (dropWhile (\<lambda>c. c \<noteq> sep) s))"
proof -
  let ?h = "takeWhile (\<lambda>c. c \<noteq> sep) s" and ?d = "dropWhile (\<lambda>c. c \<noteq> sep) s"
  from assms have "?d \<noteq> []" by simp
  moreover have "hd ?d = sep" using assms hd_dropWhile [of "\<lambda>c. c \<noteq> sep" s] by auto
  ultimately have d: "?d = sep # tl ?d" by (cases ?d) auto
  have "sep \<notin> set ?h" by (auto dest: set_takeWhileD)
  then have "js_split sep (?h @ sep # tl ?d) = ?h # js_split sep (tl ?d)"
    by (rule js_split_append_sep)
  with d show ?thesis by (metis takeWhile_dropWhile_id)
qed

lemma length_js_split: "length (js_split sep s) = Suc (count_list s sep)"
  by (induction s) (auto split: list.splits simp: js_split_not_Nil)

lemma length_js_split_ge2: "2 \<le> length (js_split sep s) \<longleftrightarrow> sep \<in> set s"
proof -
  have "0 < count_list s sep \<longleftrightarrow> sep \<in> set s"
    using count_list_0_iff [of s sep] by auto
  then show ?thesis by (simp add: length_js_split Suc_le_eq)
qed

lemma js_split_join:
  "ls \<noteq> [] \<Longrightarrow> \<forall>l \<in> set ls. sep \<notin> set l \<Longrightarrow> js_split sep (js_join [sep] ls) = ls"
proof (induction ls rule: list_nonempty_induct)
  case (single x)
  then show ?case by (simp add: js_split_no_sep)
next
  case (cons x xs)
  then obtain y ys where xs: "xs = y # ys" by (cases xs) auto
  from cons have "sep \<notin> set x" and "js_split sep (js_join [sep] xs) = xs" by auto
  then show ?case
    using js_split_append_sep [of sep x "js_join [sep] xs"] by (simp add: xs)
qed

lemma trim_space_Cons: "trim (CHR '' '' # d) = trim d"
  by (simp add: trim_def isWhiteSpace_def)

lemma js_includes_sublist: "js_includes t w \<longleftrightarrow> sublist w t"
  by (induction t) (simp_all add: sublist_Cons_right)

lemma filter_from_nths:
  "filter_from k (\<lambda>_ i. i \<in> A) xs = nths xs {j. j + k \<in> A}"
proof (induction xs arbitrary: k)
  case Nil
  show ?case by simp
next
  case (Cons x xs)
  have "filter_from (Suc k) (\<lambda>_ i. i \<in> A) xs = nths xs {j. Suc j + k \<in> A}"
    using Cons [of "Suc k"] by simp
  then show ?case by (simp add: nths_Cons)
qed

lemma js_filter_not_selected: "js_filter (\<lambda>_ i. i \<notin> S) xs = nths xs {i. i \<notin> S}"
  using filter_from_nths [of 0 "- S" xs] by (simp add: js_filter_def)

section \<open>Properties of the parser\<close>

lemma parseLine_spec: "parseLine line = spec_line_card line"
proof (cases "CHR '':'' \<in> set line")
  case False
  then show ?thesis
    using length_js_split_ge2 [of "CHR '':''" line]
    by (simp add: parseLine_def spec_line_card_def)
next
  case True
  note sp = js_split_first [OF True]
  have len: "2 \<le> length (js_split CHR '':'' line)"
    using True by (simp add: length_js_split_ge2)
  have rest: "js_join '':'' (drop 1 (js_split CHR '':'' line)) =
      tl (dropWhile (\<lambda>c. c \<noteq> CHR '':'') line)"
    by (subst sp) (simp add: js_join_split)
  have hd0: "js_split CHR '':'' line ! 0 = takeWhile (\<lambda>c. c \<noteq> CHR '':'') line"
    by (subst sp) simp
  show ?thesis
    unfolding parseLine_def spec_line_card_def Let_def rest hd0
    using True len by simp
qed

lemma parseResponse_map_filter:
  "parseResponse text = List.map_filter parseLine (js_split CHR 0x0A text)"
  by (simp add: parseResponse_def List.map_filter_def filter_map comp_def)

lemma parseLine_serialized:
  assumes "validCard c" "CHR '':'' \<notin> set (card_term c)"
  shows "parseLine (card_term c @ '': '' @ card_definition c) = Some c"
proof -
  let ?t = "card_term c" and ?d = "card_definition c"
  have sp: "js_split CHR '':'' (?t @ '': '' @ ?d) = ?t # js_split CHR '':'' (CHR '' '' # ?d)"
    using js_split_append_sep [OF assms(2)] by simp
  have "js_split CHR '':'' (CHR '' '' # ?d) \<noteq> []" by (rule js_split_not_Nil)
  then have len: "2 \<le> length (js_split CHR '':'' (?t @ '': '' @ ?d))"
    unfolding sp by (cases "js_split CHR '':'' (CHR '' '' # ?d)") auto
  have rest: "js_join '':'' (drop 1 (js_split CHR '':'' (?t @ '': '' @ ?d))) = CHR '' '' # ?d"
    unfolding sp by (simp only: drop_Suc_Cons drop_0 One_nat_def js_join_split)
  have hd0: "js_split CHR '':'' (?t @ '': '' @ ?d) ! 0 = ?t"
    unfolding sp by simp
  show ?thesis
    unfolding parseLine_def Let_def rest hd0 trim_space_Cons
    using assms(1) len by (simp add: validCard_def)
qed

lemma parse_serialize:
  assumes "\<forall>c \<in> set cards. validCard c \<and> CHR '':'' \<notin> set (card_term c) \<and>
             CHR 0x0A \<notin> set (card_term c) \<and> CHR 0x0A \<notin> set (card_definition c)"
  shows "parseResponse (serializeCards cards) = cards"
proof (cases "cards = []")
  case True
  then show ?thesis
    by (simp add: parseResponse_def serializeCards_def parseLine_def)
next
  case False
  let ?ls = "map (\<lambda>c. card_term c @ '': '' @ card_definition c) cards"
  have "js_split CHR 0x0A (js_join [CHR 0x0A] ?ls) = ?ls"
    using False assms by (intro js_split_join) auto
  then have "parseResponse (serializeCards cards) = List.map_filter parseLine ?ls"
    by (simp add: parseResponse_map_filter serializeCards_def)
  also have "\<dots> = cards"
    using assms
  proof (induction cards)
    case Nil
    show ?case by simp
  next
    case (Cons c cs)
    then have "parseLine (card_term c @ '': '' @ card_definition c) = Some c"
      by (intro parseLine_serialized) auto
    with Cons show ?case by simp
  qed
  finally show ?thesis .
qed

section \<open>Properties of the page and the handlers\<close>

lemma applyHidden_nth:
  "k < length cs \<Longrightarrow> k < length es \<Longrightarrow>
   applyHidden ws cs es ! k = (es ! k)\<lparr>hidden := \<not> isVisible ws (cs ! k)\<rparr>"
proof (induction ws cs es arbitrary: k rule: applyHidden.induct)
  case (1 ws c cs e es)
  then show ?case by (cases k) auto
qed auto

lemma isVisible_iff:
  "isVisible ws c \<longleftrightarrow>
   (\<forall>w \<in> set ws. sublist w (toLowerCase (card_term c @ '' '' @ card_definition c)))"
  by (cases ws) (simp_all add: isVisible_def Let_def list_all_iff js_includes_sublist)

lemma demoState_eq:
  "demoState =
     \<lparr>currentFlashcards =
        [\<lparr>card_term = ''A'', card_definition = ''1''\<rparr>,
         \<lparr>card_term = ''B'', card_definition = ''2''\<rparr>,
         \<lparr>card_term = ''C'', card_definition = ''3''\<rparr>],
      previousState = None, isMultiSelectMode = False, selectedCards = {},
      flashcardsContainer =
        [\<lparr>data_index = 0, term_text = ''A'', definition_text = ''1'',
          is_editing = False, hidden = False, dragging = False\<rparr>,
         \<lparr>data_index = 1, term_text = ''B'', definition_text = ''2'',
          is_editing = False, hidden = False, dragging = False\<rparr>,
         \<lparr>data_index = 2, term_text = ''C'', definition_text = ''3'',
          is_editing = False, hidden = False, dragging = False\<rparr>],
      searchBar = [], errorMessage = [],
      storageWrites =
        [[\<lparr>card_term = ''A'', card_definition = ''1''\<rparr>,
          \<lparr>card_term = ''B'', card_definition = ''2''\<rparr>,
          \<lparr>card_term = ''C'', card_definition = ''3''\<rparr>]]\<rparr>"
  by code_simp

text \<open>
  Every destructive operation that passes its guards returns normally and leaves the
  card list it started from in the undo slot.
\<close>

lemma destructive_snapshot:
  assumes "destructive op s"
  shows "\<exists>s'. perform op s = Inr s' \<and> previousState s' = Some (currentFlashcards s)"
proof (cases op)
  case (EditCard index)
  with assms show ?thesis
    by (auto simp: saveAndEndEditing_def Let_def exitEditMode_def updateElement_def
        saveFlashcards_def savePreviousState_def split: option.splits)
next
  case (DeleteCard index)
  then show ?thesis
    by (simp add: deleteButton_click_def Let_def displayFlashcards_def saveFlashcards_def
        savePreviousState_def)
next
  case DeleteSelected
  with assms show ?thesis
    by (simp add: deleteSelectedButton_click_def Let_def displayFlashcards_def
        saveFlashcards_def savePreviousState_def)
next
  case (Reorder index)
  with assms have "\<not> list_ex (\<lambda>e. data_index e \<ge> length (currentFlashcards s))
      (flashcardsContainer (updateElement index (\<lambda>e. e\<lparr>dragging := False\<rparr>) s))"
    by (auto simp: pageInvariant_def updateElement_def list_all_iff list_ex_iff)
  with Reorder show ?thesis
    by (simp add: cardDiv_dragend_def updateOrderAndSave_def Let_def savePreviousState_def
        displayFlashcards_def applySearchFilter_def saveFlashcards_def updateElement_def)
qed

lemma undo_restores:
  assumes "previousState s = Some prev"
  shows "currentFlashcards (undoButton_click s) = prev \<and>
         storageWrites (undoButton_click s) = storageWrites s @ [prev] \<and>
         previousState (undoButton_click s) = None"
  using assms
  by (simp add: undoButton_click_def Let_def displayFlashcards_def saveFlashcards_def
      applySearchFilter_def)

lemma selectionInvariant_initialState: "selectionInvariant initialState"
  by (simp add: selectionInvariant_def initialState_def)

lemma selectionInvariant_handlers:
  assumes "selectionInvariant s"
  shows "selectionInvariant (selectButton_click s)"
    and "selectionInvariant (cardDiv_click i s)"
    and "selectionInvariant (deleteButton_click i confirmed s)"
    and "selectionInvariant (deleteSelectedButton_click confirmed s)"
    and "selectionInvariant (undoButton_click s)"
    and "selectionInvariant (searchBar_input v s)"
    and "selectionInvariant (typeText i t d s)"
    and "selectionInvariant (cardDiv_dragstart i s)"
    and "selectionInvariant (flashcardsContainer_dragover a s)"
    and "selectionInvariant (generateButton_click topic s)"
    and "selectionInvariant (generateContent_settled answer s)"
  using assms
  by (auto simp: selectionInvariant_def selectButton_click_def cardDiv_click_def
      toggleCardSelection_def deleteButton_click_def deleteSelectedButton_click_def
      undoButton_click_def searchBar_input_def typeText_def cardDiv_dragstart_def
      flashcardsContainer_dragover_def generateButton_click_def generateContent_settled_def
      displayFlashcards_def saveFlashcards_def savePreviousState_def applySearchFilter_def
      updateElement_def Let_def split: option.splits sum.splits)

lemma selectionInvariant_results:
  assumes "selectionInvariant s"
  shows "saveAndEndEditing i s = Inr s' \<Longrightarrow> selectionInvariant s'"
    and "editButton_click i s = Inr s' \<Longrightarrow> selectionInvariant s'"
    and "cardDiv_dragend i s = Inr s' \<Longrightarrow> selectionInvariant s'"
  using assms
  by (auto simp: selectionInvariant_def saveAndEndEditing_def editButton_click_def
      cardDiv_dragend_def updateOrderAndSave_def exitEditMode_def
      displayFlashcards_def saveFlashcards_def savePreviousState_def applySearchFilter_def
      updateElement_def Let_def split: option.splits if_splits)

lemma dragend_selection:
  "cardDiv_dragend i s = Inr s' \<Longrightarrow> selectedCards s' = selectedCards s"
  by (auto simp: cardDiv_dragend_def updateOrderAndSave_def displayFlashcards_def
      saveFlashcards_def savePreviousState_def applySearchFilter_def updateElement_def Let_def
      split: if_splits)

lemma selectButton_off_clears:
  "isMultiSelectMode s \<Longrightarrow> selectedCards (selectButton_click s) = {}"
  by (simp add: selectButton_click_def Let_def displayFlashcards_def)

lemma deleteButton_selection:
  "selectedCards (deleteButton_click i confirmed s) = selectedCards s"
  by (simp add: deleteButton_click_def Let_def displayFlashcards_def saveFlashcards_def
      savePreviousState_def)

lemma renderCards_index:
  "e \<in> set (renderCards k cs) \<Longrightarrow> k \<le> data_index e \<and> data_index e < k + length cs"
proof (induction cs arbitrary: k)
  case Nil
  then show ?case by simp
next
  case (Cons c cs)
  show ?case
  proof (cases "e \<in> set (renderCards (Suc k) cs)")
    case True
    from Cons.IH [OF True] show ?thesis by simp
  next
    case False
    with Cons.prems show ?thesis by simp
  qed
qed

lemma applyHidden_index: "map data_index (applyHidden ws cs es) = map data_index es"
  by (induction ws cs es rule: applyHidden.induct) auto

lemma pageInvariant_displayFlashcards: "pageInvariant (displayFlashcards cs s)"
  using renderCards_index [of _ 0 cs]
  by (auto simp: pageInvariant_def displayFlashcards_def list_all_iff)

lemma pageInvariant_cong:
  assumes "pageInvariant s"
    and "length (currentFlashcards s') = length (currentFlashcards s)"
    and "set (map data_index (flashcardsContainer s')) \<subseteq>
         set (map data_index (flashcardsContainer s))"
  shows "pageInvariant s'"
  using assms by (auto simp: pageInvariant_def list_all_iff)

lemma pageInvariant_initialState: "pageInvariant initialState"
  by (simp add: pageInvariant_def initialState_def)

lemma pageInvariant_applySearchFilter:
  "pageInvariant s \<Longrightarrow> pageInvariant (applySearchFilter s)"
  by (erule pageInvariant_cong) (simp_all add: applySearchFilter_def applyHidden_index)

lemma pageInvariant_updateElement:
  assumes "pageInvariant s" and "\<And>e. data_index (f e) = data_index e"
  shows "pageInvariant (updateElement i f s)"
  using assms by (auto simp: pageInvariant_def updateElement_def list_all_iff)

lemma pageInvariant_handlers:
  assumes "pageInvariant s"
  shows "pageInvariant (selectButton_click s)"
    and "pageInvariant (cardDiv_click i s)"
    and "pageInvariant (deleteButton_click i confirmed s)"
    and "pageInvariant (deleteSelectedButton_click confirmed s)"
    and "pageInvariant (undoButton_click s)"
    and "pageInvariant (searchBar_input v s)"
    and "pageInvariant (typeText i t d s)"
    and "pageInvariant (cardDiv_dragstart i s)"
    and "pageInvariant (flashcardsContainer_dragover a s)"
    and "pageInvariant (generateButton_click topic s)"
    and "pageInvariant (generateContent_settled answer s)"
proof -
  show "pageInvariant (selectButton_click s)"
    by (simp add: selectButton_click_def Let_def pageInvariant_displayFlashcards)
  show "pageInvariant (cardDiv_click i s)"
    using assms by (simp add: cardDiv_click_def toggleCardSelection_def pageInvariant_def)
  show "pageInvariant (deleteButton_click i confirmed s)"
    using assms by (simp add: deleteButton_click_def Let_def pageInvariant_displayFlashcards)
  show "pageInvariant (deleteSelectedButton_click confirmed s)"
    using assms
    by (simp add: deleteSelectedButton_click_def Let_def pageInvariant_displayFlashcards)
  show "pageInvariant (undoButton_click s)"
  proof (cases "previousState s")
    case None
    with assms show ?thesis by (simp add: undoButton_click_def)
  next
    case (Some prev)
    have "pageInvariant (applySearchFilter (saveFlashcards prev (displayFlashcards prev s)))"
      by (intro pageInvariant_applySearchFilter)
         (simp add: pageInvariant_def saveFlashcards_def displayFlashcards_def list_all_iff,
          use renderCards_index [of _ 0 prev] in auto)
    then show ?thesis
      by (simp add: undoButton_click_def Some Let_def pageInvariant_def)
  qed
  show "pageInvariant (searchBar_input v s)"
    unfolding searchBar_input_def
    using assms by (intro pageInvariant_applySearchFilter) (simp add: pageInvariant_def)
  show "pageInvariant (typeText i t d s)"
    unfolding typeText_def using assms by (intro pageInvariant_updateElement) auto
  show "pageInvariant (cardDiv_dragstart i s)"
    unfolding cardDiv_dragstart_def
    using assms by (auto intro: pageInvariant_updateElement)
  show "pageInvariant (flashcardsContainer_dragover a s)"
  proof (cases "find dragging (flashcardsContainer s)")
    case None
    with assms show ?thesis by (simp add: flashcardsContainer_dragover_def)
  next
    case (Some el)
    then have el: "el \<in> set (flashcardsContainer s)"
      by (auto simp: find_Some_iff)
    let ?others = "filter (\<lambda>e. data_index e \<noteq> data_index el) (flashcardsContainer s)"
    have sub: "set (flashcardsContainer (flashcardsContainer_dragover a s)) \<subseteq>
        set (flashcardsContainer s)"
    proof (cases a)
      case None
      with el show ?thesis
        by (auto simp: flashcardsContainer_dragover_def Some Let_def)
    next
      case (Some x)
      have "set (takeWhile (\<lambda>e. data_index e \<noteq> x) ?others) \<subseteq> set ?others"
        and "set (dropWhile (\<lambda>e. data_index e \<noteq> x) ?others) \<subseteq> set ?others"
        by (auto dest: set_takeWhileD set_dropWhileD)
      moreover have "set ?others \<subseteq> set (flashcardsContainer s)" by auto
      ultimately show ?thesis
        using el \<open>find dragging (flashcardsContainer s) = Some el\<close>
        by (simp add: flashcardsContainer_dragover_def Some Let_def) blast
    qed
    have "currentFlashcards (flashcardsContainer_dragover a s) = currentFlashcards s"
      by (cases a) (simp_all add: flashcardsContainer_dragover_def Some Let_def)
    with assms sub show ?thesis
      by (auto simp: pageInvariant_def list_all_iff)
  qed
  show "pageInvariant (generateButton_click topic s)"
    by (simp add: generateButton_click_def pageInvariant_def)
  show "pageInvariant (generateContent_settled answer s)"
    using assms
    by (cases answer)
       (auto simp: generateContent_settled_def Let_def pageInvariant_def saveFlashcards_def
          displayFlashcards_def list_all_iff dest: renderCards_index)
qed

lemma pageInvariant_results:
  assumes "pageInvariant s"
  shows "saveAndEndEditing i s = Inr s' \<Longrightarrow> pageInvariant s'"
    and "editButton_click i s = Inr s' \<Longrightarrow> pageInvariant s'"
    and "cardDiv_dragend i s = Inr s' \<Longrightarrow> pageInvariant s'"
proof -
  show save: "saveAndEndEditing i s = Inr s' \<Longrightarrow> pageInvariant s'" for s'
    using assms
    by (auto simp: saveAndEndEditing_def Let_def exitEditMode_def updateElement_def
        saveFlashcards_def savePreviousState_def pageInvariant_def list_all_iff
        split: option.splits if_splits)
  show "editButton_click i s = Inr s' \<Longrightarrow> pageInvariant s'"
    using assms save
    by (auto simp: editButton_click_def updateElement_def pageInvariant_def list_all_iff
        split: option.splits if_splits)
  show "cardDiv_dragend i s = Inr s' \<Longrightarrow> pageInvariant s'"
  proof -
    assume "cardDiv_dragend i s = Inr s'"
    then obtain new s1 where
      "s' = saveFlashcards new (applySearchFilter (displayFlashcards new s1))"
      by (auto simp: cardDiv_dragend_def updateOrderAndSave_def Let_def split: if_splits)
    moreover have "pageInvariant (applySearchFilter (displayFlashcards new s1))"
      by (intro pageInvariant_applySearchFilter pageInvariant_displayFlashcards)
    ultimately show ?thesis
      by (simp add: pageInvariant_def saveFlashcards_def)
  qed
qed

section \<open>The fuel of the JSON parser\<close>

text \<open>
  The parser only ever returns a rest that is no longer than its input, and from twice
  the length of the input (plus one for a value, plus two for the elements of an array
  and the members of an object) its result no longer depends on the fuel. So a result
  \<open>None\<close> of \<open>JSON_parse\<close> is a syntax error of the text and never a lack of fuel.
\<close>

lemma skipSpace_length: "skipSpace cs = c # r \<Longrightarrow> length r < length cs"
proof -
  assume a: "skipSpace cs = c # r"
  have "length (skipSpace cs) \<le> length cs"
    unfolding skipSpace_def by (rule length_dropWhile_le)
  with a show ?thesis by simp
qed

lemma scanString_length: "scanString n acc cs = Some (str, r) \<Longrightarrow> length r \<le> length cs"
proof (induction n acc cs rule: scanString.induct)
  case (3 fuel acc c cs)
  then show ?case
    by (auto split: if_splits list.splits simp: le_Suc_eq)
qed simp_all

lemma scanString_fuel:
  "length cs \<le> n \<Longrightarrow> length cs \<le> m \<Longrightarrow> scanString n acc cs = scanString m acc cs"
proof (induction n acc cs arbitrary: m rule: scanString.induct)
  case (1 acc cs)
  then show ?case by (cases m) simp_all
next
  case (2 fuel acc)
  then show ?case by (cases m) simp_all
next
  case (3 fuel acc c cs)
  from "3.prems" obtain m' where m: "m = Suc m'" by (cases m) auto
  from "3.prems" m have len: "length cs \<le> fuel" "length cs \<le> m'" by simp_all
  show ?case
  proof (cases "c = CHR 0x22")
    case True
    then show ?thesis by (simp add: m)
  next
    case quote: False
    show ?thesis
    proof (cases "c = CHR 0x5C")
      case False
      show ?thesis
      proof (cases "(of_char c :: nat) < 32")
        case True
        with quote False show ?thesis by (simp add: m)
      next
        case ctl: False
        have "scanString fuel (c # acc) cs = scanString m' (c # acc) cs"
          using quote False ctl len by (intro "3.IH"(3)) simp_all
        with quote False ctl show ?thesis by (simp add: m)
      qed
    next
      case True
      show ?thesis
      proof (cases cs)
        case Nil
        with quote True show ?thesis by (simp add: m)
      next
        case (Cons e rest)
        from len Cons have lr: "length rest \<le> fuel" "length rest \<le> m'"
          "length (drop 4 rest) \<le> fuel" "length (drop 4 rest) \<le> m'" by simp_all
        let ?simple = "e \<in> set [CHR 0x22, CHR 0x5C, CHR ''/'', CHR ''b'', CHR ''f'', CHR ''n'',
                             CHR ''r'', CHR ''t'']"
        show ?thesis
        proof (cases ?simple)
          case s: True
          have "scanString fuel (e # c # acc) rest = scanString m' (e # c # acc) rest"
            using quote True Cons s lr by (intro "3.IH"(1)) simp_all
          with quote True Cons s show ?thesis by (simp add: m)
        next
          case s: False
          show ?thesis
          proof (cases "e = CHR ''u'' \<and> length rest \<ge> 4 \<and> list_all isHexDigit (take 4 rest)")
            case u: True
            have "scanString fuel (rev (take 4 rest) @ e # c # acc) (drop 4 rest) =
                  scanString m' (rev (take 4 rest) @ e # c # acc) (drop 4 rest)"
              using quote True Cons s u lr by (intro "3.IH"(2)) simp_all
            with quote True Cons s u show ?thesis by (simp add: m)
          next
            case u: False
            with quote True Cons s show ?thesis by (auto simp: m)
          qed
        qed
      qed
    qed
  qed
qed

lemma scanDigits_length: "scanDigits cs = Some (ds, r) \<Longrightarrow> length r \<le> length cs"
  by (auto simp: scanDigits_def Let_def length_dropWhile_le split: if_splits)


lemma scanNumber_length: "scanNumber cs = Some (num, r) \<Longrightarrow> length r \<le> length cs"
proof -
  assume a: "scanNumber cs = Some (num, r)"
  have tl_le: "\<And>xs :: string. length (tl xs) \<le> length xs" by simp
  have dig: "\<And>xs ds r'. scanDigits xs = Some (ds, r') \<Longrightarrow> length r' \<le> length xs"
    by (rule scanDigits_length)
  obtain sign r0 where s0: "(if cs \<noteq> [] \<and> hd cs = CHR ''-'' then (''-'', tl cs) else ([], cs)) = (sign, r0)"
    by (cases "(if cs \<noteq> [] \<and> hd cs = CHR ''-'' then (''-'', tl cs) else ([], cs))") auto
  then have l0: "length r0 \<le> length cs" by (auto split: if_splits)
  from a s0 obtain ipart r1 where
    s1: "(if r0 \<noteq> [] \<and> hd r0 = CHR ''0'' then Some (''0'', tl r0) else scanDigits r0) = Some (ipart, r1)"
    by (auto simp: scanNumber_def Let_def split: option.splits)
  then have l1: "length r1 \<le> length r0"
    by (auto split: if_splits dest: dig)
  from a s0 s1 obtain fpart r2 where
    s2: "(if r1 \<noteq> [] \<and> hd r1 = CHR ''.''
          then map_option (\<lambda>(ds, r). (CHR ''.'' # ds, r)) (scanDigits (tl r1))
          else Some ([], r1)) = Some (fpart, r2)"
    by (auto simp: scanNumber_def Let_def split: option.splits)
  then have l2: "length r2 \<le> length r1"
    using tl_le [of r1] by (auto split: if_splits dest!: dig)
  from a s0 s1 s2 obtain epart where
    s3: "(if r2 \<noteq> [] \<and> (hd r2 = CHR ''e'' \<or> hd r2 = CHR ''E'')
          then (let r3 = tl r2;
                    (esign, r4) =
                      (if r3 \<noteq> [] \<and> (hd r3 = CHR ''+'' \<or> hd r3 = CHR ''-'')
                       then ([hd r3], tl r3) else ([], r3))
                in map_option (\<lambda>(ds, r). (hd r2 # esign @ ds, r)) (scanDigits r4))
          else Some ([], r2)) = Some (epart, r)"
    by (auto simp: scanNumber_def split: option.splits)
  have l3: "length r \<le> length r2"
  proof (cases "r2 \<noteq> [] \<and> (hd r2 = CHR ''e'' \<or> hd r2 = CHR ''E'')")
    case False
    with s3 show ?thesis by auto
  next
    case True
    let ?r3 = "tl r2"
    obtain esign r4 where
      e: "(if ?r3 \<noteq> [] \<and> (hd ?r3 = CHR ''+'' \<or> hd ?r3 = CHR ''-'')
           then ([hd ?r3], tl ?r3) else ([], ?r3)) = (esign, r4)"
      by (cases "(if ?r3 \<noteq> [] \<and> (hd ?r3 = CHR ''+'' \<or> hd ?r3 = CHR ''-'')
           then ([hd ?r3], tl ?r3) else ([], ?r3))") auto
    then have "length r4 \<le> length ?r3" by (auto split: if_splits)
    moreover from s3 True e obtain ds where "scanDigits r4 = Some (ds, r)"
      by (auto simp: Let_def)
    ultimately show ?thesis using dig [of r4 ds r] tl_le [of r2] by linarith
  qed
  from l0 l1 l2 l3 show ?thesis by linarith
qed

lemma parse_length:
  "parseValue n cs = Some (v, r) \<Longrightarrow> length r \<le> length cs"
  "parseElements n acc cs = Some (v, r) \<Longrightarrow> length r \<le> length cs"
  "parseMembers n macc cs = Some (v, r) \<Longrightarrow> length r \<le> length cs"
proof (induction n cs and n acc cs and n macc cs arbitrary: v r and v r and v r
    rule: parseValue_parseElements_parseMembers.induct)
  case (1 cs)
  then show ?case by simp
next
  case (2 fuel cs)
  from "2.prems" obtain c r0 where sp: "skipSpace cs = c # r0"
    by (cases "skipSpace cs") auto
  note l0 = skipSpace_length [OF sp]
  show ?case
  proof (cases "c = CHR ''{''")
    case True
    from "2.prems" sp True obtain c' r' where sp': "skipSpace r0 = c' # r'"
      by (cases "skipSpace r0") auto
    note l1 = skipSpace_length [OF sp']
    show ?thesis
    proof (cases "c' = CHR ''}''")
      case True
      with "2.prems" sp \<open>c = CHR ''{''\<close> sp' l0 l1 show ?thesis by auto
    next
      case False
      with "2.prems" sp \<open>c = CHR ''{''\<close> sp' have "parseMembers fuel [] r0 = Some (v, r)" by simp
      from "2.IH"(1) [OF sp \<open>c = CHR ''{''\<close> sp' False this] l0 show ?thesis by simp
    qed
  next
    case nobrace: False
    show ?thesis
    proof (cases "c = CHR ''[''")
      case True
      from "2.prems" sp nobrace True obtain c' r' where sp': "skipSpace r0 = c' # r'"
        by (cases "skipSpace r0") auto
      note l1 = skipSpace_length [OF sp']
      show ?thesis
      proof (cases "c' = CHR '']''")
        case True
        with "2.prems" sp nobrace \<open>c = CHR ''[''\<close> sp' l0 l1 show ?thesis by auto
      next
        case False
        with "2.prems" sp nobrace \<open>c = CHR ''[''\<close> sp'
        have "parseElements fuel [] r0 = Some (v, r)" by simp
        from "2.IH"(2) [OF sp nobrace \<open>c = CHR ''[''\<close> sp' False this] l0 show ?thesis by simp
      qed
    next
      case nobracket: False
      have "length r \<le> length (c # r0)"
        using "2.prems" sp nobrace nobracket
        by (auto split: if_splits dest: scanString_length scanNumber_length)
      with l0 show ?thesis by simp
    qed
  qed
next
  case (3 acc cs)
  then show ?case by simp
next
  case (4 fuel acc cs)
  from "4.prems" obtain v0 r0 where pv: "parseValue fuel cs = Some (v0, r0)"
    by (auto split: option.splits)
  note l0 = "4.IH"(1) [OF pv]
  from "4.prems" pv obtain c r' where sp: "skipSpace r0 = c # r'"
    by (cases "skipSpace r0") auto
  note l1 = skipSpace_length [OF sp]
  show ?case
  proof (cases "c = CHR '',''")
    case True
    with "4.prems" pv sp have "parseElements fuel (v0 # acc) r' = Some (v, r)" by simp
    from "4.IH"(2) [OF pv refl sp True this] l0 l1 show ?thesis by simp
  next
    case False
    with "4.prems" pv sp l0 l1 show ?thesis by (auto split: if_splits)
  qed
next
  case (5 macc cs)
  then show ?case by simp
next
  case (6 fuel macc cs)
  from "6.prems" obtain q r0 where sp: "skipSpace cs = q # r0"
    by (cases "skipSpace cs") auto
  note l0 = skipSpace_length [OF sp]
  from "6.prems" sp have q: "\<not> q \<noteq> CHR 0x22" by (auto split: if_splits)
  from "6.prems" sp q obtain key r1 where ss: "scanString (length r0) [] r0 = Some (key, r1)"
    by (auto split: option.splits)
  note l1 = scanString_length [OF ss]
  from "6.prems" sp q ss obtain colon r2 where sp2: "skipSpace r1 = colon # r2"
    by (cases "skipSpace r1") auto
  note l2 = skipSpace_length [OF sp2]
  from "6.prems" sp q ss sp2 have col: "\<not> colon \<noteq> CHR '':''" by (auto split: if_splits)
  from "6.prems" sp q ss sp2 col obtain v0 r3 where pv: "parseValue fuel r2 = Some (v0, r3)"
    by (auto split: option.splits)
  note l3 = "6.IH"(1) [OF sp q ss refl sp2 col pv]
  from "6.prems" sp q ss sp2 col pv obtain c r4 where sp4: "skipSpace r3 = c # r4"
    by (cases "skipSpace r3") auto
  note l4 = skipSpace_length [OF sp4]
  show ?case
  proof (cases "c = CHR '',''")
    case True
    with "6.prems" sp q ss sp2 col pv sp4
    have "parseMembers fuel ((key, v0) # macc) r4 = Some (v, r)" by simp
    from "6.IH"(2) [OF sp q ss refl sp2 col pv refl sp4 True this]
      l0 l1 l2 l3 l4
    show ?thesis by simp
  next
    case False
    with "6.prems" sp q ss sp2 col pv sp4 l0 l1 l2 l3 l4 show ?thesis
      by (auto split: if_splits)
  qed
qed


lemma parse_fuel:
  "2 * length cs + 1 \<le> n \<Longrightarrow> 2 * length cs + 1 \<le> m \<Longrightarrow>
     parseValue n cs = parseValue m cs"
  "2 * length cs + 2 \<le> n \<Longrightarrow> 2 * length cs + 2 \<le> m \<Longrightarrow>
     parseElements n acc cs = parseElements m acc cs"
  "2 * length cs + 2 \<le> n \<Longrightarrow> 2 * length cs + 2 \<le> m \<Longrightarrow>
     parseMembers n macc cs = parseMembers m macc cs"
proof (induction n cs and n acc cs and n macc cs arbitrary: m and m and m
    rule: parseValue_parseElements_parseMembers.induct)
  case (1 cs)
  then show ?case by simp
next
  case (2 fuel cs)
  from "2.prems" obtain m' where m: "m = Suc m'" by (cases m) auto
  from "2.prems" m have f: "2 * length cs \<le> fuel" "2 * length cs \<le> m'" by simp_all
  show ?case
  proof (cases "skipSpace cs")
    case Nil
    then show ?thesis by (simp add: m)
  next
    case (Cons c r0)
    from skipSpace_length [OF Cons] f
    have f0: "2 * length r0 + 2 \<le> fuel" "2 * length r0 + 2 \<le> m'" by simp_all
    have members: "parseMembers fuel [] r0 = parseMembers m' [] r0"
      if "c = CHR ''{''" "skipSpace r0 = c' # r'" "c' \<noteq> CHR ''}''" for c' r'
      using "2.IH"(1) [OF Cons that f0] .
    have elements: "parseElements fuel [] r0 = parseElements m' [] r0"
      if "c \<noteq> CHR ''{''" "c = CHR ''[''" "skipSpace r0 = c' # r'" "c' \<noteq> CHR '']''" for c' r'
      using "2.IH"(2) [OF Cons that f0] .
    show ?thesis
    proof (cases "c = CHR ''{''")
      case True
      with members show ?thesis by (simp add: m Cons split: list.splits)
    next
      case False
      with elements show ?thesis by (simp add: m Cons split: list.splits)
    qed
  qed
next
  case (3 acc cs)
  then show ?case by simp
next
  case (4 fuel acc cs)
  from "4.prems" obtain m' where m: "m = Suc m'" by (cases m) auto
  from "4.prems" m have f: "2 * length cs + 1 \<le> fuel" "2 * length cs + 1 \<le> m'" by simp_all
  have val: "parseValue fuel cs = parseValue m' cs"
    using "4.IH"(1) [OF f] .
  show ?case
  proof (cases "parseValue fuel cs")
    case None
    with val show ?thesis by (simp add: m)
  next
    case (Some p)
    obtain v0 r0 where p: "p = (v0, r0)" by (cases p)
    from parse_length(1) [of fuel cs v0 r0] Some p have l0: "length r0 \<le> length cs" by simp
    have rest: "parseElements fuel (v0 # acc) r' = parseElements m' (v0 # acc) r'"
      if sp: "skipSpace r0 = c # r'" and c: "c = CHR '',''" for c r'
    proof -
      from skipSpace_length [OF sp] l0 f
      have "2 * length r' + 2 \<le> fuel" "2 * length r' + 2 \<le> m'" by simp_all
      from "4.IH"(2) [OF Some p [symmetric] sp c this] show ?thesis .
    qed
    from val Some p have "parseValue m' cs = Some (v0, r0)" by simp
    with Some p rest show ?thesis by (simp add: m split: list.splits)
  qed
next
  case (5 macc cs)
  then show ?case by simp
next
  case (6 fuel macc cs)
  from "6.prems" obtain m' where m: "m = Suc m'" by (cases m) auto
  from "6.prems" m have f: "2 * length cs + 1 \<le> fuel" "2 * length cs + 1 \<le> m'" by simp_all
  show ?case
  proof (cases "skipSpace cs")
    case Nil
    then show ?thesis by (simp add: m)
  next
    case (Cons q r0)
    note l0 = skipSpace_length [OF Cons]
    show ?thesis
    proof (cases "q \<noteq> CHR 0x22")
      case True
      then show ?thesis by (simp add: m Cons)
    next
      case q: False
      show ?thesis
      proof (cases "scanString (length r0) [] r0")
        case None
        with q show ?thesis by (simp add: m Cons)
      next
        case (Some k)
        obtain key r1 where k: "k = (key, r1)" by (cases k)
        from scanString_length [of "length r0" "[]" r0 key r1] Some k
        have l1: "length r1 \<le> length r0" by simp
        show ?thesis
        proof (cases "skipSpace r1")
          case Nil
          with q Some k show ?thesis by (simp add: m Cons)
        next
          case r1: (Cons colon r2)
          note l2 = skipSpace_length [OF r1]
          show ?thesis
          proof (cases "colon \<noteq> CHR '':''")
            case True
            with q Some k r1 show ?thesis by (simp add: m Cons)
          next
            case col: False
            from l0 l1 l2 f have f2: "2 * length r2 + 1 \<le> fuel" "2 * length r2 + 1 \<le> m'"
              by simp_all
            have val: "parseValue fuel r2 = parseValue m' r2"
              using "6.IH"(1) [OF Cons q Some k [symmetric] r1 col f2] .
            show ?thesis
            proof (cases "parseValue fuel r2")
              case None
              with val q Some k r1 col show ?thesis by (simp add: m Cons)
            next
              case pv: (Some p)
              obtain v0 r3 where p: "p = (v0, r3)" by (cases p)
              from parse_length(1) [of fuel r2 v0 r3] pv p
              have l3: "length r3 \<le> length r2" by simp
              have rest: "parseMembers fuel ((key, v0) # macc) r4 =
                          parseMembers m' ((key, v0) # macc) r4"
                if sp: "skipSpace r3 = c # r4" and c: "c = CHR '',''" for c r4
              proof -
                from skipSpace_length [OF sp] l0 l1 l2 l3 f
                have "2 * length r4 + 2 \<le> fuel" "2 * length r4 + 2 \<le> m'" by simp_all
                from "6.IH"(2) [OF Cons q Some k [symmetric] r1 col pv p [symmetric] sp c this]
                show ?thesis .
              qed
              from val pv p have "parseValue m' r2 = Some (v0, r3)" by simp
              with q Some k r1 col pv p rest show ?thesis
                by (simp add: m Cons split: list.splits)
            qed
          qed
        qed
      qed
    qed
  qed
qed

lemma JSON_parse_fuel:
  "2 * length saved + 2 \<le> n \<Longrightarrow>
   JSON_parse saved =
     (case parseValue n saved of
        None \<Rightarrow> Inl SyntaxError
      | Some (v, r) \<Rightarrow> if skipSpace r = [] then Inr v else Inl SyntaxError)"
  using parse_fuel(1) [of saved "2 * length saved + 2" n]
  by (simp add: JSON_parse_def)

section \<open>The claims\<close>

subsection \<open>C1: the selection after a delete or a reorder\<close>

text \<open>
  C1 says that the selection set is empty after every single delete, batch delete and
  completed drag. The delete button of a card does not touch the selection
  (\<open>deleteButton_selection\<close>). Run on three cards A, B, C: enter multi-select mode,
  select card 1 (B), delete card 0 (A) with its own delete button. The list is now B, C,
  multi-select mode is still on, and the selection is still \<open>{1}\<close>, which now names
  card C; a batch delete at this point removes C and keeps B.
\<close>

theorem single_delete_keeps_selection:
  "selectedCards (deleteButton_click 0 True (cardDiv_click 1 (selectButton_click demoState)))
     = {1} \<and>
   isMultiSelectMode (deleteButton_click 0 True (cardDiv_click 1 (selectButton_click demoState)))
     \<and>
   currentFlashcards (deleteButton_click 0 True (cardDiv_click 1 (selectButton_click demoState)))
     = [\<lparr>card_term = ''B'', card_definition = ''2''\<rparr>,
        \<lparr>card_term = ''C'', card_definition = ''3''\<rparr>] \<and>
   currentFlashcards
     (deleteSelectedButton_click True
        (deleteButton_click 0 True (cardDiv_click 1 (selectButton_click demoState))))
     = [\<lparr>card_term = ''B'', card_definition = ''2''\<rparr>]"
  by code_simp

subsection \<open>C2: malformed stored data\<close>

text \<open>
  C2 as stated fails: the stored text \<^verbatim>\<open>[1]\<close> is JSON but not an array of card records,
  and \<open>loadFlashcards\<close> returns the parsed array and leaves the entry in place. The empty
  text is not JSON either; the load returns \<^verbatim>\<open>null\<close> for it and leaves it in place.
\<close>

theorem load_unchecked_shape_counterexample:
  "\<not> wellFormedStored ''[1]'' \<and>
   loadFlashcards (Some ''[1]'') = (JArray [JNumber ''1''], Some ''[1]'') \<and>
   \<not> wellFormedStored [] \<and>
   loadFlashcards (Some []) = (JNull, Some [])"
  by code_simp

text \<open>
  C2, amended: a stored text that is not empty and does not parse as JSON is treated as
  no data (the load returns \<^verbatim>\<open>null\<close>) and its entry is removed; a text that parses is
  returned as parsed, whatever its shape, and its entry stays; an empty text and a
  missing entry give \<^verbatim>\<open>null\<close> and leave the store as it is.
\<close>

theorem load_malformed_discarded:
  "(saved \<noteq> [] \<and> JSON_parse saved = Inl e \<longrightarrow> loadFlashcards (Some saved) = (JNull, None)) \<and>
   (saved \<noteq> [] \<and> JSON_parse saved = Inr v \<longrightarrow> loadFlashcards (Some saved) = (v, Some saved)) \<and>
   loadFlashcards (Some []) = (JNull, Some []) \<and>
   loadFlashcards None = (JNull, None)"
  by (simp add: loadFlashcards_def)

theorem load_malformed_discarded_witness:
  "''not json'' \<noteq> [] \<and> JSON_parse ''not json'' = Inl SyntaxError \<and>
   loadFlashcards (Some ''not json'') = (JNull, None) \<and>
   ''[]'' \<noteq> [] \<and> JSON_parse ''[]'' = Inr (JArray []) \<and>
   loadFlashcards (Some ''[]'') = (JArray [], Some ''[]'')"
proof -
  have bad: "JSON_parse ''not json'' = Inl SyntaxError" by code_simp
  have good: "JSON_parse ''[]'' = Inr (JArray [])" by code_simp
  show ?thesis
    using load_malformed_discarded [of "''not json''" SyntaxError]
      load_malformed_discarded [of "''[]''" _ "JArray []"] bad good
    by simp
qed

subsection \<open>C3: the search filter\<close>

text \<open>
  C3 as stated fails twice. The text searched is the term, a space and the definition,
  not the two joined directly: on the card A / 1 the query \<^verbatim>\<open>a1\<close> has the one token
  \<^verbatim>\<open>a1\<close>, which occurs in the lower-cased concatenation of term and definition, and the
  card is hidden. And the query is split at spaces only: \<^verbatim>\<open>a\<close>, tab, \<^verbatim>\<open>b\<close> is one
  token, so the card \<^verbatim>\<open>a b\<close> / \<^verbatim>\<open>c\<close>, which contains both \<^verbatim>\<open>a\<close> and \<^verbatim>\<open>b\<close>, is not
  visible.
\<close>

theorem search_concatenation_counterexample:
  "searchWords ''a1'' = [''a1''] \<and>
   sublist ''a1'' (toLowerCase (''A'' @ ''1'')) \<and>
   currentFlashcards demoState ! 0 = \<lparr>card_term = ''A'', card_definition = ''1''\<rparr> \<and>
   hidden (flashcardsContainer (searchBar_input ''a1'' demoState) ! 0) \<and>
   searchWords [CHR ''a'', CHR 0x09, CHR ''b''] = [[CHR ''a'', CHR 0x09, CHR ''b'']] \<and>
   sublist ''a'' (toLowerCase (''a b'' @ ''c'')) \<and>
   sublist ''b'' (toLowerCase (''a b'' @ ''c'')) \<and>
   \<not> isVisible (searchWords [CHR ''a'', CHR 0x09, CHR ''b''])
       \<lparr>card_term = ''a b'', card_definition = ''c''\<rparr>"
  by code_simp

text \<open>
  C3, amended: the query is trimmed, lower-cased and split at space characters, empty
  pieces dropped; whenever the filter runs, the card at position \<open>k\<close> is visible iff
  every token occurs in the lower-cased text made of its term, one space and its
  definition. A query with no tokens makes every card visible.
\<close>

theorem search_filter_visibility:
  assumes "k < length (currentFlashcards s)" and "k < length (flashcardsContainer s)"
  shows "searchWords (searchBar s) =
           filter (\<lambda>w. w \<noteq> []) (js_split CHR '' '' (toLowerCase (trim (searchBar s)))) \<and>
         ((\<not> hidden (flashcardsContainer (applySearchFilter s) ! k)) =
          (\<forall>w \<in> set (searchWords (searchBar s)).
             sublist w (toLowerCase (card_term (currentFlashcards s ! k) @ '' '' @
                                     card_definition (currentFlashcards s ! k))))) \<and>
         (searchWords (searchBar s) = [] \<longrightarrow>
            \<not> hidden (flashcardsContainer (applySearchFilter s) ! k))"
proof -
  have tokens: "searchWords (searchBar s) =
      filter (\<lambda>w. w \<noteq> []) (js_split CHR '' '' (toLowerCase (trim (searchBar s))))"
    by (simp add: searchWords_def)
  have vis: "(\<not> hidden (flashcardsContainer (applySearchFilter s) ! k)) =
         (\<forall>w \<in> set (searchWords (searchBar s)).
            sublist w (toLowerCase (card_term (currentFlashcards s ! k) @ '' '' @
                                    card_definition (currentFlashcards s ! k))))"
    using assms
    by (simp add: applySearchFilter_def applyHidden_nth isVisible_iff)
  have "searchWords (searchBar s) = [] \<longrightarrow>
      \<not> hidden (flashcardsContainer (applySearchFilter s) ! k)"
    using vis by simp
  with tokens vis show ?thesis by blast
qed

theorem search_filter_visibility_witness:
  "(1::nat) < length (currentFlashcards demoState) \<and>
   1 < length (flashcardsContainer demoState) \<and>
   searchWords '' 2  B '' = [''2'', ''b''] \<and>
   currentFlashcards demoState ! 1 = \<lparr>card_term = ''B'', card_definition = ''2''\<rparr> \<and>
   sublist ''2'' (toLowerCase (''B'' @ '' '' @ ''2'')) \<and>
   sublist ''b'' (toLowerCase (''B'' @ '' '' @ ''2'')) \<and>
   \<not> hidden (flashcardsContainer (searchBar_input '' 2  B '' demoState) ! 1) \<and>
   searchWords ''  '' = [] \<and>
   \<not> hidden (flashcardsContainer (searchBar_input ''  '' demoState) ! 1)"
proof -
  have k: "(1::nat) < length (currentFlashcards demoState)"
    "1 < length (flashcardsContainer demoState)"
    by (simp_all add: demoState_eq)
  have w: "searchWords '' 2  B '' = [''2'', ''b'']" "searchWords ''  '' = []"
    by code_simp+
  have c: "currentFlashcards demoState ! 1 = \<lparr>card_term = ''B'', card_definition = ''2''\<rparr>"
    by (simp add: demoState_eq)
  have s2: "sublist ''2'' (toLowerCase (''B'' @ '' '' @ ''2''))"
    and sb: "sublist ''b'' (toLowerCase (''B'' @ '' '' @ ''2''))"
    by code_simp+
  have "\<not> hidden (flashcardsContainer (searchBar_input '' 2  B '' demoState) ! 1)"
    using search_filter_visibility [of 1 "demoState\<lparr>searchBar := '' 2  B ''\<rparr>"] k s2 sb c
    by (simp add: w searchBar_input_def)
  moreover have "\<not> hidden (flashcardsContainer (searchBar_input ''  '' demoState) ! 1)"
    using search_filter_visibility [of 1 "demoState\<lparr>searchBar := ''  ''\<rparr>"] k w
    by (simp add: searchBar_input_def)
  ultimately show ?thesis using k w c s2 sb by simp
qed

subsection \<open>C4: the parser round trip\<close>

text \<open>
  C4 as stated fails: the card with term \<^verbatim>\<open>a:b\<close> and definition \<^verbatim>\<open>c\<close> is valid, has no
  line feed and its definition does not end in a colon, and its line \<^verbatim>\<open>a:b: c\<close> parses
  to the term \<^verbatim>\<open>a\<close> and the definition \<^verbatim>\<open>b: c\<close>.
\<close>

theorem roundtrip_colon_in_term_counterexample:
  "validCard \<lparr>card_term = ''a:b'', card_definition = ''c''\<rparr> \<and>
   CHR 0x0A \<notin> set ''a:b'' \<and> CHR 0x0A \<notin> set ''c'' \<and> last ''c'' \<noteq> CHR '':'' \<and>
   parseResponse (serializeCards [\<lparr>card_term = ''a:b'', card_definition = ''c''\<rparr>]) =
     [\<lparr>card_term = ''a'', card_definition = ''b: c''\<rparr>] \<and>
   parseResponse (serializeCards [\<lparr>card_term = ''a:b'', card_definition = ''c''\<rparr>]) \<noteq>
     [\<lparr>card_term = ''a:b'', card_definition = ''c''\<rparr>]"
  by code_simp

text \<open>
  C4, amended: for every list of valid cards (term and definition non-empty and trimmed)
  with no line feed in a term or definition, no colon in a term, and no definition ending
  in a colon, serialising each card to a line \<^verbatim>\<open>term: definition\<close>, joining the lines
  with line feeds and parsing the result gives the list back.
\<close>

theorem parser_roundtrip:
  assumes "list_all (\<lambda>c. validCard c \<and>
                          CHR 0x0A \<notin> set (card_term c) \<and>
                          CHR 0x0A \<notin> set (card_definition c) \<and>
                          CHR '':'' \<notin> set (card_term c) \<and>
                          last (card_definition c) \<noteq> CHR '':'') cards"
  shows "parseResponse (serializeCards cards) = cards"
  using assms by (intro parse_serialize) (auto simp: list_all_iff)

theorem parser_roundtrip_witness:
  "list_all (\<lambda>c. validCard c \<and>
                  CHR 0x0A \<notin> set (card_term c) \<and>
                  CHR 0x0A \<notin> set (card_definition c) \<and>
                  CHR '':'' \<notin> set (card_term c) \<and>
                  last (card_definition c) \<noteq> CHR '':'')
     [\<lparr>card_term = ''Hello'', card_definition = ''Hola''\<rparr>,
      \<lparr>card_term = ''Good bye'', card_definition = ''see: you''\<rparr>] \<and>
   parseResponse
     (serializeCards
        [\<lparr>card_term = ''Hello'', card_definition = ''Hola''\<rparr>,
         \<lparr>card_term = ''Good bye'', card_definition = ''see: you''\<rparr>]) =
     [\<lparr>card_term = ''Hello'', card_definition = ''Hola''\<rparr>,
      \<lparr>card_term = ''Good bye'', card_definition = ''see: you''\<rparr>]"
proof -
  have h: "list_all (\<lambda>c. validCard c \<and>
                  CHR 0x0A \<notin> set (card_term c) \<and>
                  CHR 0x0A \<notin> set (card_definition c) \<and>
                  CHR '':'' \<notin> set (card_term c) \<and>
                  last (card_definition c) \<noteq> CHR '':'')
     [\<lparr>card_term = ''Hello'', card_definition = ''Hola''\<rparr>,
      \<lparr>card_term = ''Good bye'', card_definition = ''see: you''\<rparr>]"
    by code_simp
  show ?thesis using h parser_roundtrip [OF h] by simp
qed

subsection \<open>C5: which lines yield a card\<close>

text \<open>
  C5: a line yields a card iff it has a colon and both the text before the first colon
  and the text after it are non-empty once trimmed; the card is made of the two trimmed
  texts. The cards of a response are those of its lines, in the order of the lines, and
  lines that yield none are skipped.
\<close>

theorem parser_line_rule:
  "parseLine line = spec_line_card line \<and>
   ((parseLine line \<noteq> None) =
      (CHR '':'' \<in> set line \<and>
       trim (takeWhile (\<lambda>c. c \<noteq> CHR '':'') line) \<noteq> [] \<and>
       trim (tl (dropWhile (\<lambda>c. c \<noteq> CHR '':'') line)) \<noteq> [])) \<and>
   parseResponse text = List.map_filter spec_line_card (js_split CHR 0x0A text)"
proof -
  have iff: "(parseLine line \<noteq> None) =
     (CHR '':'' \<in> set line \<and>
      trim (takeWhile (\<lambda>c. c \<noteq> CHR '':'') line) \<noteq> [] \<and>
      trim (tl (dropWhile (\<lambda>c. c \<noteq> CHR '':'') line)) \<noteq> [])"
    by (simp add: parseLine_spec spec_line_card_def Let_def)
  have "parseLine = spec_line_card" by (rule ext) (rule parseLine_spec)
  then have "parseResponse text = List.map_filter spec_line_card (js_split CHR 0x0A text)"
    by (simp add: parseResponse_map_filter)
  with iff parseLine_spec [of line] show ?thesis by blast
qed

theorem parser_line_rule_witness:
  "parseResponse (''Hello: Hola'' @ [CHR 0x0A] @ ''no colon here'' @ [CHR 0x0A] @
                  '' : empty head'' @ [CHR 0x0A] @ ''empty definition:  '' @ [CHR 0x0A] @
                  ''a:b:c'') =
     [\<lparr>card_term = ''Hello'', card_definition = ''Hola''\<rparr>,
      \<lparr>card_term = ''a'', card_definition = ''b:c''\<rparr>] \<and>
   parseLine ''a:b:c'' = Some \<lparr>card_term = ''a'', card_definition = ''b:c''\<rparr> \<and>
   parseResponse ''no colon here'' = []"
proof -
  have "List.map_filter spec_line_card
          (js_split CHR 0x0A (''Hello: Hola'' @ [CHR 0x0A] @ ''no colon here'' @ [CHR 0x0A] @
                  '' : empty head'' @ [CHR 0x0A] @ ''empty definition:  '' @ [CHR 0x0A] @
                  ''a:b:c'')) =
     [\<lparr>card_term = ''Hello'', card_definition = ''Hola''\<rparr>,
      \<lparr>card_term = ''a'', card_definition = ''b:c''\<rparr>]"
    by code_simp
  moreover have "spec_line_card ''a:b:c'' = Some \<lparr>card_term = ''a'', card_definition = ''b:c''\<rparr>"
    by code_simp
  moreover have "List.map_filter spec_line_card (js_split CHR 0x0A ''no colon here'') = []"
    by code_simp
  ultimately show ?thesis
    using parser_line_rule [of "''a:b:c''"] parser_line_rule [of _ "''no colon here''"]
      parser_line_rule [of _ "''Hello: Hola'' @ [CHR 0x0A] @ ''no colon here'' @ [CHR 0x0A] @
                  '' : empty head'' @ [CHR 0x0A] @ ''empty definition:  '' @ [CHR 0x0A] @
                  ''a:b:c''"]
    by (simp only:)
qed

subsection \<open>C6: undo is single-slot\<close>

text \<open>
  C6: every destructive operation that takes effect overwrites the undo slot with the
  card list it started from. After two such operations in a row, the first taking
  \<open>s0\<close> to \<open>s1\<close>, the second returns normally, the slot holds the list of \<open>s1\<close>, and
  one undo makes the list of \<open>s1\<close> the current list again and writes it to storage; the
  slot is then empty, so a further undo changes nothing and the list of \<open>s0\<close> is not
  restored.
\<close>

theorem undo_single_slot:
  assumes "destructive op1 s0" and "perform op1 s0 = Inr s1" and "destructive op2 s1"
  shows "previousState s1 = Some (currentFlashcards s0) \<and>
         (\<exists>s2. perform op2 s1 = Inr s2 \<and>
               previousState s2 = Some (currentFlashcards s1) \<and>
               currentFlashcards (undoButton_click s2) = currentFlashcards s1 \<and>
               storageWrites (undoButton_click s2) = storageWrites s2 @ [currentFlashcards s1] \<and>
               previousState (undoButton_click s2) = None \<and>
               undoButton_click (undoButton_click s2) = undoButton_click s2)"
proof -
  from destructive_snapshot [OF assms(1)] assms(2)
  have first: "previousState s1 = Some (currentFlashcards s0)" by auto
  from destructive_snapshot [OF assms(3)]
  obtain s2 where s2: "perform op2 s1 = Inr s2" "previousState s2 = Some (currentFlashcards s1)"
    by blast
  note u = undo_restores [OF s2(2)]
  from u have "undoButton_click (undoButton_click s2) = undoButton_click s2"
    by (simp add: undoButton_click_def [of "undoButton_click s2"])
  with first s2 u show ?thesis by blast
qed

theorem undo_single_slot_witness:
  "destructive (Reorder 0) demoDragged \<and>
   perform (Reorder 0) demoDragged = Inr demoReordered \<and>
   destructive (DeleteCard 1) demoReordered \<and>
   currentFlashcards demoDragged =
     [\<lparr>card_term = ''A'', card_definition = ''1''\<rparr>,
      \<lparr>card_term = ''B'', card_definition = ''2''\<rparr>,
      \<lparr>card_term = ''C'', card_definition = ''3''\<rparr>] \<and>
   currentFlashcards demoReordered =
     [\<lparr>card_term = ''B'', card_definition = ''2''\<rparr>,
      \<lparr>card_term = ''C'', card_definition = ''3''\<rparr>,
      \<lparr>card_term = ''A'', card_definition = ''1''\<rparr>] \<and>
   currentFlashcards (deleteButton_click 1 True demoReordered) =
     [\<lparr>card_term = ''B'', card_definition = ''2''\<rparr>,
      \<lparr>card_term = ''A'', card_definition = ''1''\<rparr>] \<and>
   currentFlashcards (undoButton_click (deleteButton_click 1 True demoReordered)) =
     [\<lparr>card_term = ''B'', card_definition = ''2''\<rparr>,
      \<lparr>card_term = ''C'', card_definition = ''3''\<rparr>,
      \<lparr>card_term = ''A'', card_definition = ''1''\<rparr>] \<and>
   previousState (undoButton_click (deleteButton_click 1 True demoReordered)) = None"
proof -
  have h1: "destructive (Reorder 0) demoDragged" by code_simp
  have h2: "perform (Reorder 0) demoDragged = Inr demoReordered" by code_simp
  have h3: "destructive (DeleteCard 1) demoReordered" by simp
  have c0: "currentFlashcards demoDragged =
     [\<lparr>card_term = ''A'', card_definition = ''1''\<rparr>,
      \<lparr>card_term = ''B'', card_definition = ''2''\<rparr>,
      \<lparr>card_term = ''C'', card_definition = ''3''\<rparr>]" by code_simp
  have c1: "currentFlashcards demoReordered =
     [\<lparr>card_term = ''B'', card_definition = ''2''\<rparr>,
      \<lparr>card_term = ''C'', card_definition = ''3''\<rparr>,
      \<lparr>card_term = ''A'', card_definition = ''1''\<rparr>]" by code_simp
  have c2: "currentFlashcards (deleteButton_click 1 True demoReordered) =
     [\<lparr>card_term = ''B'', card_definition = ''2''\<rparr>,
      \<lparr>card_term = ''A'', card_definition = ''1''\<rparr>]" by code_simp
  show ?thesis
    using undo_single_slot [OF h1 h2 h3] h1 h2 h3 c0 c1 c2 by simp
qed

subsection \<open>C7: undo is one-shot\<close>

text \<open>
  C7: with an empty undo slot the undo handler returns the state as it is (the card
  list and the storage writes included). With a snapshot in the slot it makes the
  snapshot the current list, writes it to storage and empties the slot. So a second
  undo in a row changes nothing.
\<close>

theorem undo_one_shot:
  "(previousState s = None \<longrightarrow> undoButton_click s = s) \<and>
   (\<forall>prev. previousState s = Some prev \<longrightarrow>
      currentFlashcards (undoButton_click s) = prev \<and>
      storageWrites (undoButton_click s) = storageWrites s @ [prev] \<and>
      previousState (undoButton_click s) = None) \<and>
   undoButton_click (undoButton_click s) = undoButton_click s"
proof -
  have none: "previousState s = None \<longrightarrow> undoButton_click s = s"
    by (simp add: undoButton_click_def)
  have some: "\<forall>prev. previousState s = Some prev \<longrightarrow>
      currentFlashcards (undoButton_click s) = prev \<and>
      storageWrites (undoButton_click s) = storageWrites s @ [prev] \<and>
      previousState (undoButton_click s) = None"
    using undo_restores by blast
  have "previousState (undoButton_click s) = None"
    using none some by (cases "previousState s") auto
  then have "undoButton_click (undoButton_click s) = undoButton_click s"
    by (simp add: undoButton_click_def [of "undoButton_click s"])
  with none some show ?thesis by blast
qed

theorem undo_one_shot_witness:
  "previousState demoState = None \<and> undoButton_click demoState = demoState \<and>
   previousState demoDeleted =
     Some [\<lparr>card_term = ''A'', card_definition = ''1''\<rparr>,
           \<lparr>card_term = ''B'', card_definition = ''2''\<rparr>,
           \<lparr>card_term = ''C'', card_definition = ''3''\<rparr>] \<and>
   currentFlashcards demoDeleted =
     [\<lparr>card_term = ''B'', card_definition = ''2''\<rparr>,
      \<lparr>card_term = ''C'', card_definition = ''3''\<rparr>] \<and>
   currentFlashcards (undoButton_click demoDeleted) =
     [\<lparr>card_term = ''A'', card_definition = ''1''\<rparr>,
      \<lparr>card_term = ''B'', card_definition = ''2''\<rparr>,
      \<lparr>card_term = ''C'', card_definition = ''3''\<rparr>] \<and>
   storageWrites (undoButton_click demoDeleted) =
     storageWrites demoDeleted @
       [[\<lparr>card_term = ''A'', card_definition = ''1''\<rparr>,
         \<lparr>card_term = ''B'', card_definition = ''2''\<rparr>,
         \<lparr>card_term = ''C'', card_definition = ''3''\<rparr>]] \<and>
   previousState (undoButton_click demoDeleted) = None \<and>
   undoButton_click (undoButton_click demoDeleted) = undoButton_click demoDeleted"
proof -
  have n: "previousState demoState = None" by (simp add: demoState_eq)
  have p: "previousState demoDeleted =
     Some [\<lparr>card_term = ''A'', card_definition = ''1''\<rparr>,
           \<lparr>card_term = ''B'', card_definition = ''2''\<rparr>,
           \<lparr>card_term = ''C'', card_definition = ''3''\<rparr>]" by code_simp
  have c: "currentFlashcards demoDeleted =
     [\<lparr>card_term = ''B'', card_definition = ''2''\<rparr>,
      \<lparr>card_term = ''C'', card_definition = ''3''\<rparr>]" by code_simp
  show ?thesis
    using undo_one_shot [of demoState] undo_one_shot [of demoDeleted] n p c by simp
qed

subsection \<open>C8: batch delete\<close>

text \<open>
  C8: with a non-empty selection, a confirmed batch delete leaves exactly the cards
  whose index is not selected, in their order (\<open>nths\<close> keeps the elements at the given
  positions); afterwards multi-select mode is off and the selection is empty. The list
  before is in the undo slot and the list after is written to storage.
\<close>

theorem batch_delete_exact:
  assumes "selectedCards s \<noteq> {}"
  shows "currentFlashcards (deleteSelectedButton_click True s) =
           nths (currentFlashcards s) {i. i \<notin> selectedCards s} \<and>
         \<not> isMultiSelectMode (deleteSelectedButton_click True s) \<and>
         selectedCards (deleteSelectedButton_click True s) = {} \<and>
         previousState (deleteSelectedButton_click True s) = Some (currentFlashcards s) \<and>
         storageWrites (deleteSelectedButton_click True s) =
           storageWrites s @ [currentFlashcards (deleteSelectedButton_click True s)]"
  using assms
  by (simp add: deleteSelectedButton_click_def Let_def displayFlashcards_def saveFlashcards_def
        savePreviousState_def js_filter_not_selected)

theorem batch_delete_exact_witness:
  "selectedCards demoSelected = {1, 3} \<and> selectedCards demoSelected \<noteq> {} \<and>
   currentFlashcards demoSelected =
     [\<lparr>card_term = ''A'', card_definition = ''1''\<rparr>,
      \<lparr>card_term = ''B'', card_definition = ''2''\<rparr>,
      \<lparr>card_term = ''C'', card_definition = ''3''\<rparr>,
      \<lparr>card_term = ''D'', card_definition = ''4''\<rparr>] \<and>
   currentFlashcards (deleteSelectedButton_click True demoSelected) =
     [\<lparr>card_term = ''A'', card_definition = ''1''\<rparr>,
      \<lparr>card_term = ''C'', card_definition = ''3''\<rparr>] \<and>
   \<not> isMultiSelectMode (deleteSelectedButton_click True demoSelected) \<and>
   selectedCards (deleteSelectedButton_click True demoSelected) = {}"
proof -
  have sel: "selectedCards demoSelected = {1, 3}" by code_simp
  then have ne: "selectedCards demoSelected \<noteq> {}" by simp
  have cs: "currentFlashcards demoSelected =
     [\<lparr>card_term = ''A'', card_definition = ''1''\<rparr>,
      \<lparr>card_term = ''B'', card_definition = ''2''\<rparr>,
      \<lparr>card_term = ''C'', card_definition = ''3''\<rparr>,
      \<lparr>card_term = ''D'', card_definition = ''4''\<rparr>]" by code_simp
  have "nths (currentFlashcards demoSelected) {i. i \<notin> selectedCards demoSelected} =
     [\<lparr>card_term = ''A'', card_definition = ''1''\<rparr>,
      \<lparr>card_term = ''C'', card_definition = ''3''\<rparr>]"
    by (simp add: sel cs nths_Cons)
  then show ?thesis
    using batch_delete_exact [OF ne] sel cs by simp
qed

subsection \<open>C9: the edit no-op guard\<close>

text \<open>
  C9: when a card in edit mode is saved and the trimmed texts of its term and
  definition elements equal the term and definition of the stored card, the handler
  returns normally with the undo slot, the storage writes and the card list unchanged.
\<close>

theorem edit_noop_guard:
  assumes "cardElement index s = Some e" and "is_editing e"
    and "index < length (currentFlashcards s)"
    and "trim (term_text e) = card_term (currentFlashcards s ! index)"
    and "trim (definition_text e) = card_definition (currentFlashcards s ! index)"
  shows "\<exists>s'. saveAndEndEditing index s = Inr s' \<and>
              previousState s' = previousState s \<and>
              storageWrites s' = storageWrites s \<and>
              currentFlashcards s' = currentFlashcards s"
  using assms
  by (simp add: saveAndEndEditing_def Let_def exitEditMode_def updateElement_def)

theorem edit_noop_guard_witness:
  "cardElement 1 demoEditing =
     Some \<lparr>data_index = 1, term_text = ''  B '', definition_text = ''2  '',
           is_editing = True, hidden = False, dragging = False\<rparr> \<and>
   (1::nat) < length (currentFlashcards demoEditing) \<and>
   trim ''  B '' = card_term (currentFlashcards demoEditing ! 1) \<and>
   trim ''2  '' = card_definition (currentFlashcards demoEditing ! 1) \<and>
   (\<exists>s'. saveAndEndEditing 1 demoEditing = Inr s' \<and>
         previousState s' = previousState demoEditing \<and>
         storageWrites s' = storageWrites demoEditing \<and>
         currentFlashcards s' = currentFlashcards demoEditing)"
proof -
  have e: "cardElement 1 demoEditing =
     Some \<lparr>data_index = 1, term_text = ''  B '', definition_text = ''2  '',
           is_editing = True, hidden = False, dragging = False\<rparr>" by code_simp
  have l: "(1::nat) < length (currentFlashcards demoEditing)" by code_simp
  have t: "trim ''  B '' = card_term (currentFlashcards demoEditing ! 1)" by code_simp
  have d: "trim ''2  '' = card_definition (currentFlashcards demoEditing ! 1)" by code_simp
  show ?thesis
    using edit_noop_guard [OF e _ l] e l t d by simp
qed

subsection \<open>C10: a drag always commits\<close>

text \<open>
  C10: when a drag ends, in a state where every card on the page carries an index of
  the card list (\<open>pageInvariant\<close>, which every handler keeps), the handler returns
  normally, the undo slot holds the list from before the drag
  whatever it held, and the new list, read off the order of the cards on the page, is
  written to storage. There is no check that the order changed: with the cards in their
  rendered order the list stays the same, and the slot is overwritten and the write is
  made all the same.
\<close>

theorem dragend_always_commits:
  assumes "pageInvariant s"
  shows "\<exists>s'. cardDiv_dragend index s = Inr s' \<and>
              previousState s' = Some (currentFlashcards s) \<and>
              storageWrites s' = storageWrites s @ [currentFlashcards s'] \<and>
              currentFlashcards s' =
                map (\<lambda>e. currentFlashcards s ! data_index e) (flashcardsContainer s) \<and>
              (map data_index (flashcardsContainer s) = [0 ..< length (currentFlashcards s)]
                 \<longrightarrow> currentFlashcards s' = currentFlashcards s)"
proof -
  let ?s0 = "updateElement index (\<lambda>e. e\<lparr>dragging := False\<rparr>) s"
  have cs: "currentFlashcards ?s0 = currentFlashcards s" "storageWrites ?s0 = storageWrites s"
    by (simp_all add: updateElement_def)
  have ok: "\<not> list_ex (\<lambda>e. data_index e \<ge> length (currentFlashcards s)) (flashcardsContainer ?s0)"
    using assms by (auto simp: pageInvariant_def updateElement_def list_all_iff list_ex_iff)
  have new: "map (\<lambda>e. currentFlashcards s ! data_index e) (flashcardsContainer ?s0) =
             map (\<lambda>e. currentFlashcards s ! data_index e) (flashcardsContainer s)"
    by (simp add: updateElement_def comp_def)
  have same: "map data_index (flashcardsContainer s) = [0 ..< length (currentFlashcards s)]
      \<Longrightarrow> map (\<lambda>e. currentFlashcards s ! data_index e) (flashcardsContainer s) = currentFlashcards s"
  proof -
    assume a: "map data_index (flashcardsContainer s) = [0 ..< length (currentFlashcards s)]"
    have "map (\<lambda>e. currentFlashcards s ! data_index e) (flashcardsContainer s) =
          map ((!) (currentFlashcards s)) (map data_index (flashcardsContainer s))"
      by (simp add: comp_def)
    also have "\<dots> = currentFlashcards s" unfolding a by (rule map_nth)
    finally show ?thesis .
  qed
  show ?thesis
    using ok same
    by (simp add: cardDiv_dragend_def updateOrderAndSave_def Let_def savePreviousState_def
        cs new displayFlashcards_def applySearchFilter_def saveFlashcards_def)
qed

theorem dragend_always_commits_witness:
  "pageInvariant demoDeleted \<and>
   map data_index (flashcardsContainer demoDeleted) = [0 ..< length (currentFlashcards demoDeleted)] \<and>
   previousState demoDeleted =
     Some [\<lparr>card_term = ''A'', card_definition = ''1''\<rparr>,
           \<lparr>card_term = ''B'', card_definition = ''2''\<rparr>,
           \<lparr>card_term = ''C'', card_definition = ''3''\<rparr>] \<and>
   currentFlashcards demoDeleted =
     [\<lparr>card_term = ''B'', card_definition = ''2''\<rparr>,
      \<lparr>card_term = ''C'', card_definition = ''3''\<rparr>] \<and>
   (\<exists>s'. cardDiv_dragend 0 demoDeleted = Inr s' \<and>
         currentFlashcards s' = currentFlashcards demoDeleted \<and>
         previousState s' =
           Some [\<lparr>card_term = ''B'', card_definition = ''2''\<rparr>,
                 \<lparr>card_term = ''C'', card_definition = ''3''\<rparr>] \<and>
         storageWrites s' =
           storageWrites demoDeleted @
             [[\<lparr>card_term = ''B'', card_definition = ''2''\<rparr>,
               \<lparr>card_term = ''C'', card_definition = ''3''\<rparr>]])"
proof -
  have h: "pageInvariant demoDeleted" by code_simp
  have o: "map data_index (flashcardsContainer demoDeleted) =
      [0 ..< length (currentFlashcards demoDeleted)]" by code_simp
  have p: "previousState demoDeleted =
     Some [\<lparr>card_term = ''A'', card_definition = ''1''\<rparr>,
           \<lparr>card_term = ''B'', card_definition = ''2''\<rparr>,
           \<lparr>card_term = ''C'', card_definition = ''3''\<rparr>]" by code_simp
  have c: "currentFlashcards demoDeleted =
     [\<lparr>card_term = ''B'', card_definition = ''2''\<rparr>,
      \<lparr>card_term = ''C'', card_definition = ''3''\<rparr>]" by code_simp
  from dragend_always_commits [OF h, of 0] o
  obtain s' where s': "cardDiv_dragend 0 demoDeleted = Inr s'"
    "previousState s' = Some (currentFlashcards demoDeleted)"
    "storageWrites s' = storageWrites demoDeleted @ [currentFlashcards s']"
    "currentFlashcards s' = currentFlashcards demoDeleted"
    by blast
  then have "cardDiv_dragend 0 demoDeleted = Inr s' \<and>
         currentFlashcards s' = currentFlashcards demoDeleted \<and>
         previousState s' =
           Some [\<lparr>card_term = ''B'', card_definition = ''2''\<rparr>,
                 \<lparr>card_term = ''C'', card_definition = ''3''\<rparr>] \<and>
         storageWrites s' =
           storageWrites demoDeleted @
             [[\<lparr>card_term = ''B'', card_definition = ''2''\<rparr>,
               \<lparr>card_term = ''C'', card_definition = ''3''\<rparr>]]"
    by (simp add: c)
  then show ?thesis using h o p c by blast
qed

end
